theory Spec2Isabelle
  imports Main
begin

section \<open>Python values, strings and errors\<close>

text \<open>
  The two modules \<^verbatim>\<open>seller.py\<close> (Ozon) and \<^verbatim>\<open>market.py\<close> (Yandex.Market) share the
  reconciliation logic. A Python \<^verbatim>\<open>str\<close> is modelled as the list of its UTF-8 bytes
  (\<^typ>\<open>string\<close>): splitting at the ASCII full stop and deleting everything but the ASCII
  digits act on the bytes exactly as they act on the code points, since every byte of a
  multi-byte sequence is at least \<open>0x80\<close>.

  A cell of the feed is \<^verbatim>\<open>None\<close> (what \<^verbatim>\<open>dict.get\<close> returns for an absent key), a
  \<^verbatim>\<open>str\<close> or an \<^verbatim>\<open>int\<close>. The other values that a spreadsheet reader can deliver
  (floating-point numbers, booleans, dates) are outside the model: every statement below
  is about feeds whose cells are text, integers or absent.
\<close>

datatype py_error = ValueError | TypeError | AttributeError | IndexError | RequestError

datatype pyval = PNone | PStr string | PInt int

subsection \<open>\<^verbatim>\<open>str(x)\<close>\<close>

definition digit_char :: "nat \<Rightarrow> char" where
  "digit_char d = char_of (48 + d)"

function string_of_nat :: "nat \<Rightarrow> string" where
  "string_of_nat n =
     (if n < 10 then [digit_char n] else string_of_nat (n div 10) @ [digit_char (n mod 10)])"
  by pat_completeness auto
termination
  by (relation "measure id") auto

declare string_of_nat.simps [simp del]

definition string_of_int :: "int \<Rightarrow> string" where
  "string_of_int i = (if i < 0 then CHR ''-'' # string_of_nat (nat (- i)) else string_of_nat (nat i))"

fun py_str :: "pyval \<Rightarrow> string" where
  "py_str PNone = ''None''"
| "py_str (PStr s) = s"
| "py_str (PInt i) = string_of_int i"

subsection \<open>\<^verbatim>\<open>int(x)\<close>\<close>

text \<open>
  \<^verbatim>\<open>int(None)\<close> raises \<^verbatim>\<open>TypeError\<close>. \<^verbatim>\<open>int\<close> of a \<^verbatim>\<open>str\<close> follows the interpreter
  (CPython 3.11, Unicode 14.0.0):
  \<^item> a string that is not pure ASCII is first rewritten, character by character: a
    character below 127 stays, a Unicode whitespace character becomes a space, a Unicode
    decimal digit becomes its ASCII digit, and any other character becomes \<open>?\<close> and ends
    the text;
  \<^item> the text is then scanned from the left: the C whitespace characters (tab, line feed,
    vertical tab, form feed, carriage return, space) are skipped, an optional sign is
    read, then a digit followed by digits and single underscores, each underscore
    followed by a digit; after more C whitespace the text must end. Anything else
    raises \<^verbatim>\<open>ValueError\<close>.

  The interpreter's limit on the number of digits that \<^verbatim>\<open>int\<close> and \<^verbatim>\<open>str\<close> convert
  (\<^verbatim>\<open>sys.set_int_max_str_digits\<close>, 4300 by default) is a setting of the interpreter; the
  model is the interpreter with the limit switched off.
\<close>

definition is_digit :: "char \<Rightarrow> bool" where
  "is_digit c = (48 \<le> (of_char c :: nat) \<and> (of_char c :: nat) \<le> 57)"

definition digit_val :: "char \<Rightarrow> nat" where
  "digit_val c = of_char c - 48"

definition is_space :: "char \<Rightarrow> bool" where
  "is_space c = ((of_char c :: nat) = 32 \<or> (9 \<le> (of_char c :: nat) \<and> (of_char c :: nat) \<le> 13))"

text \<open>
  The code points of a string held as UTF-8 bytes. Bytes that are no UTF-8 stand for no
  \<^verbatim>\<open>str\<close>; they decode to a number that is no code point.
\<close>

definition continuation :: "char \<Rightarrow> bool" where
  "continuation b = (0x80 \<le> (of_char b :: nat) \<and> (of_char b :: nat) < 0xC0)"

definition code_point :: "nat \<Rightarrow> nat \<Rightarrow> nat \<Rightarrow> nat" where
  "code_point lo hi v =
     (if lo \<le> v \<and> v \<le> hi \<and> (v < 0xD800 \<or> 0xDFFF < v) then v else 0x110000)"

fun utf8_decode :: "string \<Rightarrow> nat list" where
  "utf8_decode [] = []"
| "utf8_decode [a] = (if (of_char a :: nat) < 0x80 then [of_char a] else [0x110000])"
| "utf8_decode [a, b] =
     (if (of_char a :: nat) < 0x80 then of_char a # utf8_decode [b]
      else if 0xC0 \<le> (of_char a :: nat) \<and> (of_char a :: nat) < 0xE0 \<and> continuation b
        then [code_point 0x80 0x7FF ((of_char a - 0xC0) * 64 + (of_char b - 0x80))]
      else [0x110000])"
| "utf8_decode [a, b, c] =
     (if (of_char a :: nat) < 0x80 then of_char a # utf8_decode [b, c]
      else if 0xC0 \<le> (of_char a :: nat) \<and> (of_char a :: nat) < 0xE0 \<and> continuation b
        then code_point 0x80 0x7FF ((of_char a - 0xC0) * 64 + (of_char b - 0x80))
               # utf8_decode [c]
      else if 0xE0 \<le> (of_char a :: nat) \<and> (of_char a :: nat) < 0xF0
              \<and> continuation b \<and> continuation c
        then [code_point 0x800 0xFFFF
                ((of_char a - 0xE0) * 4096 + (of_char b - 0x80) * 64 + (of_char c - 0x80))]
      else [0x110000])"
| "utf8_decode (a # b # c # d # r) =
     (if (of_char a :: nat) < 0x80 then of_char a # utf8_decode (b # c # d # r)
      else if 0xC0 \<le> (of_char a :: nat) \<and> (of_char a :: nat) < 0xE0 \<and> continuation b
        then code_point 0x80 0x7FF ((of_char a - 0xC0) * 64 + (of_char b - 0x80))
               # utf8_decode (c # d # r)
      else if 0xE0 \<le> (of_char a :: nat) \<and> (of_char a :: nat) < 0xF0
              \<and> continuation b \<and> continuation c
        then code_point 0x800 0xFFFF
               ((of_char a - 0xE0) * 4096 + (of_char b - 0x80) * 64 + (of_char c - 0x80))
               # utf8_decode (d # r)
      else if 0xF0 \<le> (of_char a :: nat) \<and> (of_char a :: nat) < 0xF8
              \<and> continuation b \<and> continuation c \<and> continuation d
        then code_point 0x10000 0x10FFFF
               ((of_char a - 0xF0) * 262144 + (of_char b - 0x80) * 4096
                 + (of_char c - 0x80) * 64 + (of_char d - 0x80))
               # utf8_decode r
      else [0x110000])"

text \<open>
  The two tables of the Unicode database that \<^verbatim>\<open>int\<close> consults, beyond ASCII: the
  whitespace characters, and the decimal digits, which come in runs of ten from zero to
  nine; the table lists the zero of each run.
\<close>

definition unicode_space :: "nat \<Rightarrow> bool" where
  "unicode_space c =
     (c \<in> set [0x85, 0xA0, 0x1680, 0x2028, 0x2029, 0x202F, 0x205F, 0x3000]
      \<or> (0x2000 \<le> c \<and> c \<le> 0x200A))"

definition decimal_zeros :: "nat list" where
  "decimal_zeros =
     [0x660, 0x6F0, 0x7C0, 0x966, 0x9E6, 0xA66, 0xAE6, 0xB66, 0xBE6, 0xC66, 0xCE6, 0xD66,
      0xDE6, 0xE50, 0xED0, 0xF20, 0x1040, 0x1090, 0x17E0, 0x1810, 0x1946, 0x19D0, 0x1A80,
      0x1A90, 0x1B50, 0x1BB0, 0x1C40, 0x1C50, 0xA620, 0xA8D0, 0xA900, 0xA9D0, 0xA9F0,
      0xAA50, 0xABF0, 0xFF10, 0x104A0, 0x10D30, 0x11066, 0x110F0, 0x11136, 0x111D0,
      0x112F0, 0x11450, 0x114D0, 0x11650, 0x116C0, 0x11730, 0x118E0, 0x11950, 0x11C50,
      0x11D50, 0x11DA0, 0x16A60, 0x16AC0, 0x16B50, 0x1D7CE, 0x1D7D8, 0x1D7E2, 0x1D7EC,
      0x1D7F6, 0x1E140, 0x1E2F0, 0x1E950, 0x1FBF0]"

definition unicode_decimal :: "nat \<Rightarrow> nat option" where
  "unicode_decimal c =
     map_option (\<lambda>z. c - z) (find (\<lambda>z. z \<le> c \<and> c \<le> z + 9) decimal_zeros)"

fun to_ascii :: "nat list \<Rightarrow> string" where
  "to_ascii [] = []"
| "to_ascii (c # cs) =
     (if c < 127 then char_of c # to_ascii cs
      else if unicode_space c then CHR '' '' # to_ascii cs
      else (case unicode_decimal c of
              None \<Rightarrow> ''?''
            | Some d \<Rightarrow> char_of (48 + d) # to_ascii cs))"

definition ascii_text :: "string \<Rightarrow> string" where
  "ascii_text s =
     (if list_all (\<lambda>b. (of_char b :: nat) < 128) s then s else to_ascii (utf8_decode s))"

text \<open>
  The scan of the digits that follow a first digit: the value so far and the text; the
  result is the value and the text left, or nothing when an underscore is not followed
  by a digit.
\<close>

fun scan_digits :: "nat \<Rightarrow> string \<Rightarrow> (nat \<times> string) option" where
  "scan_digits acc [] = Some (acc, [])"
| "scan_digits acc [c] =
     (if is_digit c then Some (10 * acc + digit_val c, [])
      else if c = CHR ''_'' then None
      else Some (acc, [c]))"
| "scan_digits acc (c # d # cs) =
     (if is_digit c then scan_digits (10 * acc + digit_val c) (d # cs)
      else if c = CHR ''_'' then
        (if is_digit d then scan_digits (10 * acc + digit_val d) cs else None)
      else Some (acc, c # d # cs))"

definition parse_unsigned :: "string \<Rightarrow> nat option" where
  "parse_unsigned u =
     (case u of
        [] \<Rightarrow> None
      | d # ds \<Rightarrow>
          if is_digit d then
            (case scan_digits (digit_val d) ds of
               None \<Rightarrow> None
             | Some (v, rest) \<Rightarrow> if list_all is_space rest then Some v else None)
          else None)"

definition parse_int :: "string \<Rightarrow> int option" where
  "parse_int s =
     (case dropWhile is_space (ascii_text s) of
        [] \<Rightarrow> None
      | c # cs \<Rightarrow>
          if c = CHR ''-'' then map_option (\<lambda>n. - int n) (parse_unsigned cs)
          else if c = CHR ''+'' then map_option int (parse_unsigned cs)
          else map_option int (parse_unsigned (c # cs)))"

fun py_int :: "pyval \<Rightarrow> py_error + int" where
  "py_int PNone = Inl TypeError"
| "py_int (PInt i) = Inr i"
| "py_int (PStr s) = (case parse_int s of None \<Rightarrow> Inl ValueError | Some i \<Rightarrow> Inr i)"

section \<open>The remnants feed\<close>

text \<open>
  A row of the feed is a dictionary; the code reads three of its keys with \<^verbatim>\<open>dict.get\<close>:
  the vendor code (\<open>kod\<close>), the quantity (\<open>kolichestvo\<close>) and the price (\<open>tsena\<close>), named
  here by the transliteration of the Cyrillic keys. An absent key reads as \<^const>\<open>PNone\<close>.
\<close>

record watch =
  kod :: pyval
  kolichestvo :: pyval
  tsena :: pyval

section \<open>Stock reconciliation\<close>

text \<open>
  The quantity rule written inline in both \<^verbatim>\<open>create_stocks\<close> functions: the branches
  test \<^verbatim>\<open>str\<close> of the cell, the last one applies \<^verbatim>\<open>int\<close> to the cell itself.
\<close>

definition stock_count :: "pyval \<Rightarrow> py_error + int" where
  "stock_count q =
     (let count = py_str q in
      if count = ''>10'' then Inr 100
      else if count = ''1'' then Inr 0
      else py_int q)"

subsection \<open>\<^verbatim>\<open>seller.create_stocks\<close>\<close>

record seller_stock =
  offer_id :: string
  stock :: int

text \<open>
  The first loop. \<^verbatim>\<open>offer_ids\<close> is the caller's list object: \<^verbatim>\<open>in\<close> is list
  membership and \<^verbatim>\<open>list.remove\<close> deletes the first occurrence. The loop returns the
  decisions appended so far together with the state of the caller's list.
\<close>

fun seller_stocks_loop ::
  "watch list \<Rightarrow> string list \<Rightarrow> seller_stock list \<Rightarrow> py_error + (seller_stock list \<times> string list)"
where
  "seller_stocks_loop [] offer_ids stocks = Inr (stocks, offer_ids)"
| "seller_stocks_loop (w # ws) offer_ids stocks =
     (if py_str (kod w) \<in> set offer_ids then
        (case stock_count (kolichestvo w) of
           Inl e \<Rightarrow> Inl e
         | Inr n \<Rightarrow>
             seller_stocks_loop ws (remove1 (py_str (kod w)) offer_ids)
               (stocks @ [\<lparr>offer_id = py_str (kod w), stock = n\<rparr>]))
      else seller_stocks_loop ws offer_ids stocks)"

text \<open>
  The whole function: the result is the returned list paired with the final contents of
  the caller's \<^verbatim>\<open>offer_ids\<close> list. An exception leaves no result.
\<close>

definition seller_create_stocks ::
  "watch list \<Rightarrow> string list \<Rightarrow> py_error + (seller_stock list \<times> string list)"
where
  "seller_create_stocks watch_remnants offer_ids =
     (case seller_stocks_loop watch_remnants offer_ids [] of
        Inl e \<Rightarrow> Inl e
      | Inr (stocks, offer_ids') \<Rightarrow>
          Inr (stocks @ map (\<lambda>i. \<lparr>offer_id = i, stock = 0\<rparr>) offer_ids', offer_ids'))"

subsection \<open>\<^verbatim>\<open>market.create_stocks\<close>\<close>

record market_item =
  count :: int
  item_type :: string
  updatedAt :: string

record market_stock =
  sku :: string
  warehouseId :: string
  items :: "market_item list"

text \<open>The time stamp read from the clock at the start of the call is the parameter \<open>date\<close>.\<close>

definition market_entry :: "string \<Rightarrow> string \<Rightarrow> string \<Rightarrow> int \<Rightarrow> market_stock" where
  "market_entry warehouse_id date i n =
     \<lparr>sku = i, warehouseId = warehouse_id,
      items = [\<lparr>count = n, item_type = ''FIT'', updatedAt = date\<rparr>]\<rparr>"

fun market_stocks_loop ::
  "string \<Rightarrow> string \<Rightarrow> watch list \<Rightarrow> string list \<Rightarrow> market_stock list
    \<Rightarrow> py_error + (market_stock list \<times> string list)"
where
  "market_stocks_loop warehouse_id date [] offer_ids stocks = Inr (stocks, offer_ids)"
| "market_stocks_loop warehouse_id date (w # ws) offer_ids stocks =
     (if py_str (kod w) \<in> set offer_ids then
        (case stock_count (kolichestvo w) of
           Inl e \<Rightarrow> Inl e
         | Inr n \<Rightarrow>
             market_stocks_loop warehouse_id date ws (remove1 (py_str (kod w)) offer_ids)
               (stocks @ [market_entry warehouse_id date (py_str (kod w)) n]))
      else market_stocks_loop warehouse_id date ws offer_ids stocks)"

definition market_create_stocks ::
  "string \<Rightarrow> watch list \<Rightarrow> string list \<Rightarrow> string \<Rightarrow> py_error + (market_stock list \<times> string list)"
where
  "market_create_stocks date watch_remnants offer_ids warehouse_id =
     (case market_stocks_loop warehouse_id date watch_remnants offer_ids [] of
        Inl e \<Rightarrow> Inl e
      | Inr (stocks, offer_ids') \<Rightarrow>
          Inr (stocks @ map (\<lambda>i. market_entry warehouse_id date i 0) offer_ids', offer_ids'))"

section \<open>Price reconciliation\<close>

text \<open>
  \<^verbatim>\<open>price_conversion\<close>: the part of the string before the first full stop, with every
  character outside \<open>0\<close>..\<open>9\<close> deleted. The result is a string.
\<close>

definition price_conversion :: "string \<Rightarrow> string" where
  "price_conversion price = filter is_digit (takeWhile (\<lambda>c. c \<noteq> CHR ''.'') price)"

text \<open>
  The call \<^verbatim>\<open>price_conversion(watch.get(...))\<close>: a cell that is not a string has no
  method \<^verbatim>\<open>split\<close>.
\<close>

fun price_of_cell :: "pyval \<Rightarrow> py_error + string" where
  "price_of_cell (PStr s) = Inr (price_conversion s)"
| "price_of_cell PNone = Inl AttributeError"
| "price_of_cell (PInt i) = Inl AttributeError"

subsection \<open>\<^verbatim>\<open>seller.create_prices\<close>\<close>

record seller_price =
  auto_action_enabled :: string
  currency_code :: string
  price_offer_id :: string
  old_price :: string
  price :: string

fun seller_prices_loop ::
  "watch list \<Rightarrow> string list \<Rightarrow> seller_price list \<Rightarrow> py_error + seller_price list"
where
  "seller_prices_loop [] offer_ids prices = Inr prices"
| "seller_prices_loop (w # ws) offer_ids prices =
     (if py_str (kod w) \<in> set offer_ids then
        (case price_of_cell (tsena w) of
           Inl e \<Rightarrow> Inl e
         | Inr p \<Rightarrow>
             seller_prices_loop ws offer_ids
               (prices @ [\<lparr>auto_action_enabled = ''UNKNOWN'', currency_code = ''RUB'',
                           price_offer_id = py_str (kod w), old_price = ''0'', price = p\<rparr>]))
      else seller_prices_loop ws offer_ids prices)"

definition seller_create_prices :: "watch list \<Rightarrow> string list \<Rightarrow> py_error + seller_price list" where
  "seller_create_prices watch_remnants offer_ids = seller_prices_loop watch_remnants offer_ids []"

subsection \<open>\<^verbatim>\<open>market.create_prices\<close>\<close>

record market_price =
  price_id :: string
  price_value :: int
  currencyId :: string

text \<open>The value is \<^verbatim>\<open>int(price_conversion(...))\<close>.\<close>

definition market_price_value :: "pyval \<Rightarrow> py_error + int" where
  "market_price_value c =
     (case price_of_cell c of Inl e \<Rightarrow> Inl e | Inr s \<Rightarrow> py_int (PStr s))"

fun market_prices_loop ::
  "watch list \<Rightarrow> string list \<Rightarrow> market_price list \<Rightarrow> py_error + market_price list"
where
  "market_prices_loop [] offer_ids prices = Inr prices"
| "market_prices_loop (w # ws) offer_ids prices =
     (if py_str (kod w) \<in> set offer_ids then
        (case market_price_value (tsena w) of
           Inl e \<Rightarrow> Inl e
         | Inr v \<Rightarrow>
             market_prices_loop ws offer_ids
               (prices @ [\<lparr>price_id = py_str (kod w), price_value = v, currencyId = ''RUR''\<rparr>]))
      else market_prices_loop ws offer_ids prices)"

definition market_create_prices :: "watch list \<Rightarrow> string list \<Rightarrow> py_error + market_price list" where
  "market_create_prices watch_remnants offer_ids = market_prices_loop watch_remnants offer_ids []"

section \<open>Batching\<close>

text \<open>
  \<^verbatim>\<open>divide\<close> is a generator over \<^verbatim>\<open>range(0, len(lst), n)\<close>; every caller consumes it
  with \<^verbatim>\<open>list(...)\<close>, so the model returns the list of chunks. A step of zero makes
  \<^verbatim>\<open>range\<close> raise \<^verbatim>\<open>ValueError\<close>; a negative step gives an empty range.
\<close>

function divide_from :: "'a list \<Rightarrow> nat \<Rightarrow> nat \<Rightarrow> 'a list list" where
  "divide_from lst n i =
     (if 0 < n \<and> i < length lst then take n (drop i lst) # divide_from lst n (i + n) else [])"
  by pat_completeness auto
termination
  by (relation "measure (\<lambda>(lst, n, i). length lst - i)") auto

declare divide_from.simps [simp del]

definition divide_lst :: "'a list \<Rightarrow> int \<Rightarrow> py_error + 'a list list" where
  "divide_lst lst n =
     (if n = 0 then Inl ValueError
      else if n < 0 then Inr []
      else Inr (divide_from lst (nat n) 0))"

section \<open>Catalogue pagination\<close>

text \<open>
  \<^verbatim>\<open>get_product_list\<close> is an HTTP request. Its reply may depend on when it is sent, so
  the collaborator is a function of the number of the call and of the cursor passed; a
  failed request, or a reply that is not a well-formed page, is an error value. A product
  of a page is represented by the offer id that \<^verbatim>\<open>get_offer_ids\<close> reads from it. The loop
  is \<^verbatim>\<open>while True\<close>: it has no bound, so the model is a partial function and \<^const>\<open>None\<close>
  stands for a run that never returns.
\<close>

record seller_page =
  page_items :: "string list"
  page_total :: int
  last_id :: string

partial_function (option) seller_product_loop ::
  "(nat \<Rightarrow> string \<Rightarrow> py_error + seller_page) \<Rightarrow> nat \<Rightarrow> string \<Rightarrow> string list
    \<Rightarrow> (py_error + string list) option"
where
  "seller_product_loop get_product_list k cursor product_list =
     (case get_product_list k cursor of
        Inl e \<Rightarrow> Some (Inl e)
      | Inr some_prod \<Rightarrow>
          if page_total some_prod = int (length (product_list @ page_items some_prod))
          then Some (Inr (product_list @ page_items some_prod))
          else seller_product_loop get_product_list (Suc k) (last_id some_prod)
                 (product_list @ page_items some_prod))"

declare seller_product_loop.simps [code]

definition seller_get_offer_ids ::
  "(nat \<Rightarrow> string \<Rightarrow> py_error + seller_page) \<Rightarrow> (py_error + string list) option"
where
  "seller_get_offer_ids get_product_list = seller_product_loop get_product_list 0 [] []"

record market_page =
  offerMappingEntries :: "string list"
  nextPageToken :: "string option"

text \<open>\<^verbatim>\<open>not page\<close> holds for \<^verbatim>\<open>None\<close> and for the empty string.\<close>

fun no_page :: "string option \<Rightarrow> bool" where
  "no_page None = True"
| "no_page (Some t) = (t = [])"

fun page_token :: "string option \<Rightarrow> string" where
  "page_token None = []"
| "page_token (Some t) = t"

partial_function (option) market_product_loop ::
  "(nat \<Rightarrow> string \<Rightarrow> py_error + market_page) \<Rightarrow> nat \<Rightarrow> string \<Rightarrow> string list
    \<Rightarrow> (py_error + string list) option"
where
  "market_product_loop get_product_list k page product_list =
     (case get_product_list k page of
        Inl e \<Rightarrow> Some (Inl e)
      | Inr some_prod \<Rightarrow>
          if no_page (nextPageToken some_prod)
          then Some (Inr (product_list @ offerMappingEntries some_prod))
          else market_product_loop get_product_list (Suc k) (page_token (nextPageToken some_prod))
                 (product_list @ offerMappingEntries some_prod))"

declare market_product_loop.simps [code]

definition market_get_offer_ids ::
  "(nat \<Rightarrow> string \<Rightarrow> py_error + market_page) \<Rightarrow> (py_error + string list) option"
where
  "market_get_offer_ids get_product_list = market_product_loop get_product_list 0 [] []"

section \<open>Uploading the stocks\<close>

text \<open>
  \<^verbatim>\<open>update_stocks\<close> is an HTTP request too: a function of the number of the call and of
  the batch, which fails or returns a reply that the caller drops. The coroutine
  \<^verbatim>\<open>upload_stocks\<close> has no \<^verbatim>\<open>await\<close> inside and is modelled by its body.
\<close>

fun submit_all :: "(nat \<Rightarrow> 'a list \<Rightarrow> py_error + unit) \<Rightarrow> nat \<Rightarrow> 'a list list \<Rightarrow> py_error + unit" where
  "submit_all update k [] = Inr ()"
| "submit_all update k (some # batches) =
     (case update k some of Inl e \<Rightarrow> Inl e | Inr u \<Rightarrow> submit_all update (Suc k) batches)"

definition seller_upload_stocks ::
  "(nat \<Rightarrow> string \<Rightarrow> py_error + seller_page) \<Rightarrow> (nat \<Rightarrow> seller_stock list \<Rightarrow> py_error + unit)
    \<Rightarrow> watch list \<Rightarrow> (py_error + (seller_stock list \<times> seller_stock list)) option"
where
  "seller_upload_stocks get_product_list update_stocks watch_remnants =
     (case seller_get_offer_ids get_product_list of
        None \<Rightarrow> None
      | Some (Inl e) \<Rightarrow> Some (Inl e)
      | Some (Inr offer_ids) \<Rightarrow>
          (case seller_create_stocks watch_remnants offer_ids of
             Inl e \<Rightarrow> Some (Inl e)
           | Inr (stocks, offer_ids') \<Rightarrow>
               (case divide_lst stocks 100 of
                  Inl e \<Rightarrow> Some (Inl e)
                | Inr batches \<Rightarrow>
                    (case submit_all update_stocks 0 batches of
                       Inl e \<Rightarrow> Some (Inl e)
                     | Inr u \<Rightarrow> Some (Inr (filter (\<lambda>s. stock s \<noteq> 0) stocks, stocks))))))"

text \<open>
  In \<^verbatim>\<open>market.upload_stocks\<close> the filter reads \<^verbatim>\<open>stock.get("items")[0].get("count")\<close>,
  and indexing an empty list raises \<^verbatim>\<open>IndexError\<close>.
\<close>

fun market_not_empty :: "market_stock list \<Rightarrow> py_error + market_stock list" where
  "market_not_empty [] = Inr []"
| "market_not_empty (s # ss) =
     (case items s of
        [] \<Rightarrow> Inl IndexError
      | it # its \<Rightarrow>
          (case market_not_empty ss of
             Inl e \<Rightarrow> Inl e
           | Inr r \<Rightarrow> Inr (if count it \<noteq> 0 then s # r else r)))"

definition market_upload_stocks ::
  "string \<Rightarrow> (nat \<Rightarrow> string \<Rightarrow> py_error + market_page) \<Rightarrow> (nat \<Rightarrow> market_stock list \<Rightarrow> py_error + unit)
    \<Rightarrow> watch list \<Rightarrow> string \<Rightarrow> (py_error + (market_stock list \<times> market_stock list)) option"
where
  "market_upload_stocks date get_product_list update_stocks watch_remnants warehouse_id =
     (case market_get_offer_ids get_product_list of
        None \<Rightarrow> None
      | Some (Inl e) \<Rightarrow> Some (Inl e)
      | Some (Inr offer_ids) \<Rightarrow>
          (case market_create_stocks date watch_remnants offer_ids warehouse_id of
             Inl e \<Rightarrow> Some (Inl e)
           | Inr (stocks, offer_ids') \<Rightarrow>
               (case divide_lst stocks 2000 of
                  Inl e \<Rightarrow> Some (Inl e)
                | Inr batches \<Rightarrow>
                    (case submit_all update_stocks 0 batches of
                       Inl e \<Rightarrow> Some (Inl e)
                     | Inr u \<Rightarrow>
                         (case market_not_empty stocks of
                            Inl e \<Rightarrow> Some (Inl e)
                          | Inr not_empty \<Rightarrow> Some (Inr (not_empty, stocks)))))))"

section \<open>Notions used to state the properties\<close>

definition watch_code :: "watch \<Rightarrow> string" where
  "watch_code w = py_str (kod w)"

text \<open>
  The feed records that are honoured: those whose code is a known offer id and has not
  occurred earlier in the feed (\<open>seen\<close> holds the codes met so far), in feed order.
\<close>

fun honoured :: "string list \<Rightarrow> string list \<Rightarrow> watch list \<Rightarrow> watch list" where
  "honoured ids seen [] = []"
| "honoured ids seen (w # ws) =
     (if watch_code w \<in> set ids \<and> watch_code w \<notin> set seen
      then w # honoured ids (watch_code w # seen) ws
      else honoured ids seen ws)"

text \<open>
  The quantity rule as a function of the token, \<^verbatim>\<open>str\<close> of the quantity cell: the sentinel
  \<open>>10\<close> gives 100, the token \<open>1\<close> gives 0, any other token is read with \<^verbatim>\<open>int\<close>, and
  \<^const>\<open>None\<close> stands for a failure.
\<close>

definition normalize_quantity :: "string \<Rightarrow> int option" where
  "normalize_quantity tok =
     (if tok = ''>10'' then Some 100
      else if tok = ''1'' then Some 0
      else parse_int tok)"

text \<open>
  The records that the first loop of \<^verbatim>\<open>create_stocks\<close> matches, and the ids it leaves in
  the list, for any list of ids; and the decisions built from a list of records, up to
  the first quantity that fails.
\<close>

fun kept :: "string list \<Rightarrow> watch list \<Rightarrow> watch list" where
  "kept ids [] = []"
| "kept ids (w # ws) =
     (if watch_code w \<in> set ids then w # kept (remove1 (watch_code w) ids) ws
      else kept ids ws)"

fun leftover :: "string list \<Rightarrow> watch list \<Rightarrow> string list" where
  "leftover ids [] = ids"
| "leftover ids (w # ws) =
     (if watch_code w \<in> set ids then leftover (remove1 (watch_code w) ids) ws
      else leftover ids ws)"

fun decisions :: "(string \<Rightarrow> int \<Rightarrow> 'd) \<Rightarrow> watch list \<Rightarrow> py_error + 'd list" where
  "decisions mk [] = Inr []"
| "decisions mk (w # ws) =
     (case stock_count (kolichestvo w) of
        Inl e \<Rightarrow> Inl e
      | Inr n \<Rightarrow>
          (case decisions mk ws of
             Inl e \<Rightarrow> Inl e
           | Inr ds \<Rightarrow> Inr (mk (watch_code w) n # ds)))"

definition seller_entry :: "string \<Rightarrow> int \<Rightarrow> seller_stock" where
  "seller_entry i n = \<lparr>offer_id = i, stock = n\<rparr>"

text \<open>
  A collaborator serves the pages \<open>ps\<close> from call \<open>k\<close> and cursor \<open>cur\<close> on: each call
  returns the next page, the cursor of each call is the one the page before gave, and the
  last page of \<open>ps\<close> is the first one that meets the loop's exit test. For
  \<^verbatim>\<open>market.get_offer_ids\<close> the test is the absence of a next-page token; for
  \<^verbatim>\<open>seller.get_offer_ids\<close> it is that the reported total equals the number of products
  accumulated, \<open>n\<close> being the number accumulated before the call.
\<close>

fun market_serves ::
  "(nat \<Rightarrow> string \<Rightarrow> py_error + market_page) \<Rightarrow> nat \<Rightarrow> string \<Rightarrow> market_page list \<Rightarrow> bool"
where
  "market_serves get k cur [] = False"
| "market_serves get k cur (p # ps) =
     (get k cur = Inr p \<and>
      (if ps = [] then no_page (nextPageToken p)
       else \<not> no_page (nextPageToken p) \<and>
            market_serves get (Suc k) (page_token (nextPageToken p)) ps))"

fun seller_serves ::
  "(nat \<Rightarrow> string \<Rightarrow> py_error + seller_page) \<Rightarrow> nat \<Rightarrow> string \<Rightarrow> nat \<Rightarrow> seller_page list \<Rightarrow> bool"
where
  "seller_serves get k cur n [] = False"
| "seller_serves get k cur n (p # ps) =
     (get k cur = Inr p \<and>
      (if ps = [] then page_total p = int (n + length (page_items p))
       else page_total p \<noteq> int (n + length (page_items p)) \<and>
            seller_serves get (Suc k) (last_id p) (n + length (page_items p)) ps))"

text \<open>The value of a string of decimal digits, read from the left.\<close>

definition digits_value :: "nat \<Rightarrow> string \<Rightarrow> nat" where
  "digits_value acc ds = foldl (\<lambda>a c. 10 * a + digit_val c) acc ds"

text \<open>
  The quantity rule in the words of the specification, on a token: the sentinel \<open>>10\<close>
  gives 100, the token \<open>1\<close> gives 0, and any other token must be an exact textual integer:
  an optional sign followed by decimal digits and nothing else. \<^const>\<open>None\<close> stands for
  the failure \<open>InvalidQuantityFormat\<close>.
\<close>

definition exact_integer :: "string \<Rightarrow> int option" where
  "exact_integer tok =
     (let num = (if take 1 tok = ''-'' \<or> take 1 tok = ''+'' then drop 1 tok else tok);
          n = digits_value 0 num
      in if num \<noteq> [] \<and> list_all is_digit num
         then Some (if take 1 tok = ''-'' then - int n else int n) else None)"

definition exact_quantity :: "string \<Rightarrow> int option" where
  "exact_quantity tok =
     (if tok = ''>10'' then Some 100
      else if tok = ''1'' then Some 0
      else exact_integer tok)"

text \<open>
  The tokens that denote an integer for \<^verbatim>\<open>int\<close>, said without a scan: once the Unicode
  spaces and digits are replaced by their ASCII counterparts and the whitespace at both
  ends is dropped, the token is an optional sign followed by a group of digits and
  underscores that begins and ends with a digit and has no two underscores in a row. Its
  value is the value of its digits.
\<close>

definition trim :: "string \<Rightarrow> string" where
  "trim s = rev (dropWhile is_space (rev (dropWhile is_space s)))"

definition literal_char :: "char \<Rightarrow> bool" where
  "literal_char c = (is_digit c \<or> c = CHR ''_'')"

fun double_underscore :: "string \<Rightarrow> bool" where
  "double_underscore (a # b # cs) =
     ((a = CHR ''_'' \<and> b = CHR ''_'') \<or> double_underscore (b # cs))"
| "double_underscore [a] = False"
| "double_underscore [] = False"

definition grouped :: "string \<Rightarrow> bool" where
  "grouped num =
     (num \<noteq> [] \<and> is_digit (hd num) \<and> is_digit (last num)
      \<and> list_all literal_char num \<and> \<not> double_underscore num)"

definition integer_literal :: "string \<Rightarrow> int option" where
  "integer_literal s =
     (let t = trim (ascii_text s);
          num = (if take 1 t = ''-'' \<or> take 1 t = ''+'' then drop 1 t else t);
          n = digits_value 0 (filter is_digit num)
      in if grouped num then Some (if take 1 t = ''-'' then - int n else int n) else None)"

definition literal_quantity :: "string \<Rightarrow> int option" where
  "literal_quantity tok =
     (if tok = ''>10'' then Some 100
      else if tok = ''1'' then Some 0
      else integer_literal tok)"

text \<open>
  What the scan of \<^const>\<open>scan_digits\<close> yields, said without recursion: the longest run of
  digits and underscores is read when every underscore in it stands before a digit and
  alone.
\<close>

definition well_separated :: "string \<Rightarrow> bool" where
  "well_separated b = (\<not> double_underscore b \<and> (b = [] \<or> is_digit (last b)))"

definition digit_run :: "nat \<Rightarrow> string \<Rightarrow> (nat \<times> string) option" where
  "digit_run acc u =
     (if well_separated (takeWhile literal_char u)
      then Some (digits_value acc (filter is_digit (takeWhile literal_char u)),
                 dropWhile literal_char u)
      else None)"


text \<open>The feed and the offer ids of the specification's examples.\<close>

definition example_feed :: "watch list" where
  "example_feed =
     [\<lparr>kod = PStr ''123'', kolichestvo = PStr ''>10'', tsena = PStr ''5990.00''\<rparr>,
      \<lparr>kod = PStr ''123'', kolichestvo = PStr ''9'', tsena = PStr ''6100.50''\<rparr>,
      \<lparr>kod = PStr ''777'', kolichestvo = PStr ''4'', tsena = PStr ''10.00''\<rparr>]"

definition example_ids :: "string list" where
  "example_ids = [''123'', ''456'']"

text \<open>
  A feed of quantity tokens: the two sentinels, an integer written with spaces, a sign and
  an underscore, an integer after a no-break space (the bytes \<open>C2 A0\<close>), and a record whose
  code is not known; and a feed whose token begins with the control character \<open>1C\<close>.
\<close>

definition quantity_feed :: "watch list" where
  "quantity_feed =
     [\<lparr>kod = PStr ''7'', kolichestvo = PStr ''>10'', tsena = PStr []\<rparr>,
      \<lparr>kod = PStr ''8'', kolichestvo = PStr ''1'', tsena = PStr []\<rparr>,
      \<lparr>kod = PStr ''9'', kolichestvo = PStr '' -1_2 '', tsena = PStr []\<rparr>,
      \<lparr>kod = PStr ''6'', kolichestvo = PStr [CHR 0xC2, CHR 0xA0, CHR ''5''], tsena = PStr []\<rparr>,
      \<lparr>kod = PStr ''0'', kolichestvo = PStr ''abc'', tsena = PStr []\<rparr>]"

definition quantity_ids :: "string list" where
  "quantity_ids = [''7'', ''8'', ''9'', ''6'', ''5'']"

definition control_feed :: "watch list" where
  "control_feed = [\<lparr>kod = PStr ''7'', kolichestvo = PStr [CHR 0x1C, CHR ''7''], tsena = PStr []\<rparr>]"

text \<open>
  Collaborators used as examples: a catalogue that reports a stale total on every call,
  catalogues of two pages, and an update endpoint that accepts every batch.
\<close>

definition stale_total :: "nat \<Rightarrow> string \<Rightarrow> py_error + seller_page" where
  "stale_total k cur = Inr \<lparr>page_items = [''a'', ''b''], page_total = 3, last_id = []\<rparr>"

definition example_seller_catalog :: "nat \<Rightarrow> string \<Rightarrow> py_error + seller_page" where
  "example_seller_catalog k cur =
     Inr \<lparr>page_items = (if k = 0 then [''123''] else [''456'']), page_total = 2,
          last_id = (if k = 0 then ''123'' else [])\<rparr>"

definition example_market_catalog :: "nat \<Rightarrow> string \<Rightarrow> py_error + market_page" where
  "example_market_catalog k page =
     Inr \<lparr>offerMappingEntries = (if k = 0 then [''123''] else [''456'']),
          nextPageToken = (if k = 0 then Some ''next'' else None)\<rparr>"

definition accept_batch :: "nat \<Rightarrow> 'a list \<Rightarrow> py_error + unit" where
  "accept_batch k batch = Inr ()"

section \<open>Properties of the batcher\<close>

lemma concat_divide_from: "0 < n \<Longrightarrow> concat (divide_from lst n i) = drop i lst"
proof (induction lst n i rule: divide_from.induct)
  case (1 lst n i)
  show ?case
  proof (cases "i < length lst")
    case True
    have "take n (drop i lst) @ drop (i + n) lst = drop i lst"
      by (metis add.commute append_take_drop_id drop_drop)
    with 1 True show ?thesis by (simp add: divide_from.simps [of lst n i])
  next
    case False
    then show ?thesis by (simp add: divide_from.simps [of lst n i])
  qed
qed

lemma length_divide_from:
  "0 < n \<Longrightarrow> length (divide_from lst n i) = (length lst - i + n - 1) div n"
proof (induction lst n i rule: divide_from.induct)
  case (1 lst n i)
  show ?case
  proof (cases "i < length lst")
    case True
    have "length (divide_from lst n i) = Suc (length (divide_from lst n (i + n)))"
      using True 1(2) by (simp add: divide_from.simps [of lst n i])
    also have "\<dots> = Suc ((length lst - (i + n) + n - 1) div n)"
      using 1 True by simp
    also have "\<dots> = (length lst - i + n - 1) div n"
    proof (cases "i + n \<le> length lst")
      case le: True
      then have e: "length lst - i + n - 1 = (length lst - (i + n) + n - 1) + n"
        using \<open>0 < n\<close> by simp
      have "(length lst - (i + n) + n - 1 + n) div n = Suc ((length lst - (i + n) + n - 1) div n)"
        using \<open>0 < n\<close> by (simp only: div_add_self2)
      then show ?thesis by (simp only: e)
    next
      case gt: False
      then have a: "length lst - (i + n) + n - 1 = n - 1" by simp
      have b: "length lst - i + n - 1 = n + (length lst - i - 1)" using True by simp
      have c: "length lst - i - 1 < n" using gt True by simp
      have "(n + (length lst - i - 1)) div n = Suc 0"
        using \<open>0 < n\<close> c by (simp add: div_add_self1)
      moreover have "(n - 1) div n = 0" using \<open>0 < n\<close> by simp
      ultimately show ?thesis by (simp only: a b)
    qed
    finally show ?thesis .
  next
    case False
    then have "length lst - i + n - 1 = n - 1" by simp
    with False 1(2) show ?thesis by (simp add: divide_from.simps [of lst n i])
  qed
qed

lemma nth_divide_from:
  "0 < n \<Longrightarrow> j < length (divide_from lst n i) \<Longrightarrow>
     divide_from lst n i ! j = take n (drop (i + j * n) lst)"
proof (induction lst n i arbitrary: j rule: divide_from.induct)
  case (1 lst n i)
  show ?case
  proof (cases "i < length lst")
    case True
    show ?thesis
    proof (cases j)
      case 0
      with True 1(2) show ?thesis by (simp add: divide_from.simps [of lst n i])
    next
      case (Suc k)
      have eq: "divide_from lst n i = take n (drop i lst) # divide_from lst n (i + n)"
        using True 1(2) by (simp add: divide_from.simps [of lst n i])
      have "k < length (divide_from lst n (i + n))"
        using 1(3) Suc eq by simp
      then have "divide_from lst n (i + n) ! k = take n (drop (i + n + k * n) lst)"
        using 1(1) True 1(2) by simp
      then show ?thesis using eq Suc by (simp add: add.assoc)
    qed
  next
    case False
    with 1 show ?thesis by (simp add: divide_from.simps [of lst n i])
  qed
qed


lemma ceil_div:
  fixes l n :: nat
  assumes "0 < n"
  shows "(l + n - 1) div n = (if l mod n = 0 then l div n else Suc (l div n))"
proof -
  obtain m where n: "n = Suc m" using assms by (cases n) auto
  define q where "q = l div n"
  define r where "r = l mod n"
  have l: "l = r + q * n" by (simp add: q_def r_def)
  have rn: "r < n" using assms by (simp add: r_def)
  have e: "l + n - 1 = l + m" by (simp add: n)
  show ?thesis
  proof (cases "r = 0")
    case True
    have "(m + q * n) div n = q + m div n" by (rule div_mult_self1) (simp add: n)
    moreover have "m div n = 0" by (simp add: n)
    moreover have "l + m = m + q * n" using l True by simp
    ultimately have "(l + n - 1) div n = q" by (simp only: e add_0_right)
    then show ?thesis using True by (simp add: q_def r_def)
  next
    case False
    then obtain r' where r': "r = Suc r'" by (cases r) auto
    have "(r' + Suc q * n) div n = Suc q + r' div n" by (rule div_mult_self1) (simp add: n)
    moreover have "r' div n = 0" using rn r' by simp
    moreover have "l + m = r' + Suc q * n" using l r' by (simp add: n)
    ultimately have "(l + n - 1) div n = Suc q" by (simp only: e add_0_right)
    then show ?thesis using False by (simp add: q_def r_def)
  qed
qed

text \<open>
  Claim C6. For every list and every positive chunk size \<open>n\<close>, \<^verbatim>\<open>divide\<close> returns the
  contiguous slices \<open>lst[j*n : j*n + n]\<close> in order; their concatenation is the list; every
  chunk but the last has length \<open>n\<close>; the last one holds the remainder \<open>len mod n\<close>, or
  \<open>n\<close> when the length is a multiple of \<open>n\<close>; the empty list yields no chunk.
\<close>

theorem divide_lst_chunks:
  fixes lst :: "'a list" and n :: nat
  assumes "0 < n"
  shows "\<exists>cs. divide_lst lst (int n) = Inr cs
           \<and> concat cs = lst
           \<and> (\<forall>j < length cs. cs ! j = take n (drop (j * n) lst))
           \<and> (\<forall>j. Suc j < length cs \<longrightarrow> length (cs ! j) = n)
           \<and> (cs \<noteq> [] \<longrightarrow>
                length (last cs) = (if length lst mod n = 0 then n else length lst mod n))
           \<and> (lst = [] \<longrightarrow> cs = [])"
proof -
  define cs where "cs = divide_from lst n 0"
  define l where "l = length lst"
  have d: "divide_lst lst (int n) = Inr cs"
    using assms by (simp add: divide_lst_def cs_def)
  have c: "concat cs = lst"
    using assms by (simp add: cs_def concat_divide_from)
  have len: "length cs = (l + n - 1) div n"
    using assms by (simp add: cs_def l_def length_divide_from)
  have nth: "cs ! j = take n (drop (j * n) lst)" if "j < length cs" for j
    using that assms nth_divide_from [of n j lst 0] by (simp add: cs_def)
  have full: "length (cs ! j) = n" if "Suc j < length cs" for j
  proof -
    have "Suc (Suc j) \<le> (l + n - 1) div n" using that len by simp
    then have "Suc (Suc j) * n \<le> l + n - 1"
      using assms by (simp only: less_eq_div_iff_mult_less_eq)
    then have "Suc j * n \<le> l" using assms by simp
    then have "n \<le> l - j * n" by simp
    moreover have "j < length cs" using that by simp
    ultimately show ?thesis using nth [of j] by (simp add: l_def)
  qed
  have lastc: "length (last cs) = (if l mod n = 0 then n else l mod n)" if "cs \<noteq> []"
  proof -
    have pos: "0 < length cs" using that by simp
    have lc: "last cs = take n (drop ((length cs - 1) * n) lst)"
      using that nth [of "length cs - 1"] pos by (simp add: last_conv_nth)
    have cd: "length cs = (if l mod n = 0 then l div n else Suc (l div n))"
      using len ceil_div [OF assms, of l] by simp
    define q where "q = l div n"
    have lq: "l = q * n + l mod n" by (simp add: q_def)
    show ?thesis
    proof (cases "l mod n = 0")
      case True
      have "length cs = q" using cd True by (simp add: q_def)
      then obtain q' where q': "q = Suc q'" using pos by (cases q) auto
      have "l = q' * n + n" using lq True q' by simp
      then have "l - q' * n = n" by simp
      then have "length (take n (drop (q' * n) lst)) = n" by (simp add: l_def)
      with True lc \<open>length cs = q\<close> q' show ?thesis by simp
    next
      case False
      then have "length cs - 1 = q" using cd by (simp add: q_def)
      moreover have "l - q * n = l mod n" using lq by simp
      moreover have "l mod n < n" using assms by simp
      ultimately have "length (take n (drop ((length cs - 1) * n) lst)) = l mod n"
        by (simp add: l_def)
      with False lc show ?thesis by simp
    qed
  qed
  have emp: "cs = []" if "lst = []"
    using that by (simp add: cs_def divide_from.simps [of "[]" n 0])
  show ?thesis
  proof (intro exI conjI allI impI)
    show "divide_lst lst (int n) = Inr cs" by (rule d)
    show "concat cs = lst" by (rule c)
    show "cs ! j = take n (drop (j * n) lst)" if "j < length cs" for j using that by (rule nth)
    show "length (cs ! j) = n" if "Suc j < length cs" for j using that by (rule full)
    show "length (last cs) = (if length lst mod n = 0 then n else length lst mod n)" if "cs \<noteq> []"
      using lastc [OF that] by (simp only: l_def)
    show "cs = []" if "lst = []" using that by (rule emp)
  qed
qed

theorem divide_lst_chunks_witness:
  "(0::nat) < 2 \<and>
   (\<exists>cs. divide_lst [1, 2, 3 :: nat] (int 2) = Inr cs \<and> concat cs = [1, 2, 3]
      \<and> (\<forall>j. Suc j < length cs \<longrightarrow> length (cs ! j) = 2)
      \<and> (cs \<noteq> [] \<longrightarrow> length (last cs) = 1))"
proof -
  have h: "(0::nat) < 2" by simp
  show ?thesis
    using h divide_lst_chunks [OF h, of "[1, 2, 3 :: nat]"] by simp blast
qed


section \<open>Properties of the stock loops\<close>

lemma seller_stocks_loop_eq:
  "seller_stocks_loop ws ids acc =
     (case decisions seller_entry (kept ids ws) of
        Inl e \<Rightarrow> Inl e
      | Inr ds \<Rightarrow> Inr (acc @ ds, leftover ids ws))"
proof (induction ws arbitrary: ids acc)
  case Nil
  show ?case by simp
next
  case (Cons w ws)
  show ?case
  proof (cases "watch_code w \<in> set ids")
    case False
    then show ?thesis using Cons.IH [of ids acc] by (simp add: watch_code_def [symmetric] split: sum.splits)
  next
    case True
    show ?thesis
    proof (cases "stock_count (kolichestvo w)")
      case (Inl e)
      with True show ?thesis by (simp add: watch_code_def [symmetric] split: sum.splits)
    next
      case (Inr n)
      with True show ?thesis
        using Cons.IH [of "remove1 (watch_code w) ids" "acc @ [seller_entry (watch_code w) n]"]
        by (simp add: watch_code_def [symmetric] seller_entry_def split: sum.splits)
    qed
  qed
qed

lemma market_stocks_loop_eq:
  "market_stocks_loop wh date ws ids acc =
     (case decisions (market_entry wh date) (kept ids ws) of
        Inl e \<Rightarrow> Inl e
      | Inr ds \<Rightarrow> Inr (acc @ ds, leftover ids ws))"
proof (induction ws arbitrary: ids acc)
  case Nil
  show ?case by simp
next
  case (Cons w ws)
  show ?case
  proof (cases "watch_code w \<in> set ids")
    case False
    then show ?thesis using Cons.IH [of ids acc] by (simp add: watch_code_def [symmetric] split: sum.splits)
  next
    case True
    show ?thesis
    proof (cases "stock_count (kolichestvo w)")
      case (Inl e)
      with True show ?thesis by (simp add: watch_code_def [symmetric] split: sum.splits)
    next
      case (Inr n)
      with True show ?thesis
        using Cons.IH [of "remove1 (watch_code w) ids" "acc @ [market_entry wh date (watch_code w) n]"]
        by (simp add: watch_code_def [symmetric] split: sum.splits)
    qed
  qed
qed

lemma seller_create_stocks_eq:
  "seller_create_stocks ws ids =
     (case decisions seller_entry (kept ids ws) of
        Inl e \<Rightarrow> Inl e
      | Inr ds \<Rightarrow> Inr (ds @ map (\<lambda>i. seller_entry i 0) (leftover ids ws), leftover ids ws))"
  by (simp add: seller_create_stocks_def seller_stocks_loop_eq seller_entry_def split: sum.splits)

lemma market_create_stocks_eq:
  "market_create_stocks date ws ids wh =
     (case decisions (market_entry wh date) (kept ids ws) of
        Inl e \<Rightarrow> Inl e
      | Inr ds \<Rightarrow> Inr (ds @ map (\<lambda>i. market_entry wh date i 0) (leftover ids ws), leftover ids ws))"
  by (simp add: market_create_stocks_def market_stocks_loop_eq split: sum.splits)

lemma decisions_total:
  "\<forall>w \<in> set ws. \<exists>n. stock_count (kolichestvo w) = Inr n \<Longrightarrow> \<exists>ds. decisions mk ws = Inr ds"
  by (induction ws) auto

lemma decisions_length: "decisions mk ws = Inr ds \<Longrightarrow> length ds = length ws"
  by (induction ws arbitrary: ds) (auto split: sum.splits)

lemma decisions_nth:
  "decisions mk ws = Inr ds \<Longrightarrow> i < length ws \<Longrightarrow>
     \<exists>n. stock_count (kolichestvo (ws ! i)) = Inr n \<and> ds ! i = mk (watch_code (ws ! i)) n"
proof (induction ws arbitrary: ds i)
  case Nil
  then show ?case by simp
next
  case (Cons w ws)
  then show ?case by (cases i) (auto split: sum.splits)
qed

lemma decisions_mem:
  "decisions mk ws = Inr ds \<Longrightarrow> w \<in> set ws \<Longrightarrow>
     \<exists>n. stock_count (kolichestvo w) = Inr n \<and> mk (watch_code w) n \<in> set ds"
  by (induction ws arbitrary: ds) (auto split: sum.splits)

lemma decisions_origin:
  "decisions mk ws = Inr ds \<Longrightarrow> d \<in> set ds \<Longrightarrow>
     \<exists>w \<in> set ws. \<exists>n. stock_count (kolichestvo w) = Inr n \<and> d = mk (watch_code w) n"
  by (induction ws arbitrary: ds) (auto split: sum.splits)

lemma kept_subset: "set (kept ids ws) \<subseteq> set ws"
  by (induction ws arbitrary: ids) auto

lemma kept_leftover_distinct:
  "distinct ids \<Longrightarrow>
     distinct (map watch_code (kept ids ws) @ leftover ids ws) \<and>
     set (map watch_code (kept ids ws)) \<union> set (leftover ids ws) = set ids"
proof (induction ws arbitrary: ids)
  case Nil
  then show ?case by simp
next
  case (Cons w ws)
  show ?case
  proof (cases "watch_code w \<in> set ids")
    case False
    then show ?thesis using Cons by simp
  next
    case True
    have d: "distinct (remove1 (watch_code w) ids)" using Cons.prems by simp
    have s: "set (remove1 (watch_code w) ids) = set ids - {watch_code w}"
      using Cons.prems by simp
    from Cons.IH [OF d] s True show ?thesis by auto
  qed
qed

lemma remove1_filter_distinct:
  "distinct xs \<Longrightarrow> remove1 c (filter P xs) = filter (\<lambda>x. P x \<and> x \<noteq> c) xs"
  by (induction xs) (auto simp: remove1_idem)

lemma remove1_unseen:
  "distinct ids \<Longrightarrow>
     remove1 c (filter (\<lambda>i. i \<notin> set seen) ids) = filter (\<lambda>i. i \<notin> set (c # seen)) ids"
proof -
  assume "distinct ids"
  then have "remove1 c (filter (\<lambda>i. i \<notin> set seen) ids)
               = filter (\<lambda>i. i \<notin> set seen \<and> i \<noteq> c) ids"
    by (rule remove1_filter_distinct)
  also have "\<dots> = filter (\<lambda>i. i \<notin> set (c # seen)) ids"
    by (rule filter_cong) auto
  finally show ?thesis .
qed

lemma kept_honoured:
  "distinct ids \<Longrightarrow> kept (filter (\<lambda>i. i \<notin> set seen) ids) ws = honoured ids seen ws"
proof (induction ws arbitrary: seen)
  case Nil
  show ?case by simp
next
  case (Cons w ws)
  let ?c = "watch_code w"
  show ?case
  proof (cases "?c \<in> set ids \<and> ?c \<notin> set seen")
    case True
    then have m: "?c \<in> set (filter (\<lambda>i. i \<notin> set seen) ids)" by simp
    have "kept (filter (\<lambda>i. i \<notin> set seen) ids) (w # ws)
            = w # kept (remove1 ?c (filter (\<lambda>i. i \<notin> set seen) ids)) ws"
      using m by (simp only: kept.simps if_True)
    also have "\<dots> = w # kept (filter (\<lambda>i. i \<notin> set (?c # seen)) ids) ws"
      by (simp only: remove1_unseen [OF Cons.prems])
    also have "\<dots> = w # honoured ids (?c # seen) ws"
      by (simp only: Cons.IH [OF Cons.prems])
    also have "\<dots> = honoured ids seen (w # ws)"
      using True by simp
    finally show ?thesis .
  next
    case False
    then have m: "?c \<notin> set (filter (\<lambda>i. i \<notin> set seen) ids)" by auto
    have "kept (filter (\<lambda>i. i \<notin> set seen) ids) (w # ws)
            = kept (filter (\<lambda>i. i \<notin> set seen) ids) ws"
      using m by (simp only: kept.simps if_False)
    also have "\<dots> = honoured ids seen ws"
      by (simp only: Cons.IH [OF Cons.prems])
    also have "\<dots> = honoured ids seen (w # ws)"
      using False by auto
    finally show ?thesis .
  qed
qed

lemma leftover_filter:
  "distinct ids \<Longrightarrow>
     leftover (filter (\<lambda>i. i \<notin> set seen) ids) ws
       = filter (\<lambda>i. i \<notin> set seen \<and> i \<notin> watch_code ` set ws) ids"
proof (induction ws arbitrary: seen)
  case Nil
  show ?case by simp
next
  case (Cons w ws)
  let ?c = "watch_code w"
  show ?case
  proof (cases "?c \<in> set ids \<and> ?c \<notin> set seen")
    case True
    then have m: "?c \<in> set (filter (\<lambda>i. i \<notin> set seen) ids)" by simp
    have "leftover (filter (\<lambda>i. i \<notin> set seen) ids) (w # ws)
            = leftover (remove1 ?c (filter (\<lambda>i. i \<notin> set seen) ids)) ws"
      using m by (simp only: leftover.simps if_True)
    also have "\<dots> = leftover (filter (\<lambda>i. i \<notin> set (?c # seen)) ids) ws"
      by (simp only: remove1_unseen [OF Cons.prems])
    also have "\<dots> = filter (\<lambda>i. i \<notin> set (?c # seen) \<and> i \<notin> watch_code ` set ws) ids"
      by (simp only: Cons.IH [OF Cons.prems])
    also have "\<dots> = filter (\<lambda>i. i \<notin> set seen \<and> i \<notin> watch_code ` set (w # ws)) ids"
      by (rule filter_cong) auto
    finally show ?thesis .
  next
    case False
    then have m: "?c \<notin> set (filter (\<lambda>i. i \<notin> set seen) ids)" by auto
    have "leftover (filter (\<lambda>i. i \<notin> set seen) ids) (w # ws)
            = leftover (filter (\<lambda>i. i \<notin> set seen) ids) ws"
      using m by (simp only: leftover.simps if_False)
    also have "\<dots> = filter (\<lambda>i. i \<notin> set seen \<and> i \<notin> watch_code ` set ws) ids"
      by (simp only: Cons.IH [OF Cons.prems])
    also have "\<dots> = filter (\<lambda>i. i \<notin> set seen \<and> i \<notin> watch_code ` set (w # ws)) ids"
      using False by (intro filter_cong) auto
    finally show ?thesis .
  qed
qed

lemma decisions_map:
  "decisions mk ws = Inr ds \<Longrightarrow> (\<And>i n. f (mk i n) = i) \<Longrightarrow> map f ds = map watch_code ws"
  by (induction ws arbitrary: ds) (auto split: sum.splits)

lemma kept_honoured_all: "distinct ids \<Longrightarrow> kept ids ws = honoured ids [] ws"
  using kept_honoured [of ids "[]" ws] by simp

lemma leftover_unmatched:
  "distinct ids \<Longrightarrow> leftover ids ws = filter (\<lambda>i. i \<notin> watch_code ` set ws) ids"
  using leftover_filter [of ids "[]" ws] by simp

lemma stocks_shape:
  assumes "distinct ids"
    and "decisions mk (kept ids ws) = Inr ds"
    and "\<And>i n. f (mk i n) = i"
  shows "map f (ds @ map (\<lambda>i. mk i 0) (leftover ids ws))
           = map watch_code (honoured ids [] ws) @ filter (\<lambda>i. i \<notin> watch_code ` set ws) ids"
    and "distinct (map f (ds @ map (\<lambda>i. mk i 0) (leftover ids ws)))"
    and "set (map f (ds @ map (\<lambda>i. mk i 0) (leftover ids ws))) = set ids"
    and "drop (length (honoured ids [] ws)) (ds @ map (\<lambda>i. mk i 0) (leftover ids ws))
           = map (\<lambda>i. mk i 0) (leftover ids ws)"
proof -
  have m: "map f ds = map watch_code (kept ids ws)"
    using assms(2,3) by (rule decisions_map)
  have z: "map f (map (\<lambda>i. mk i 0) (leftover ids ws)) = leftover ids ws"
    by (simp add: assms(3) comp_def)
  have e: "map f (ds @ map (\<lambda>i. mk i 0) (leftover ids ws))
             = map watch_code (kept ids ws) @ leftover ids ws"
    using m z by simp
  show "map f (ds @ map (\<lambda>i. mk i 0) (leftover ids ws))
           = map watch_code (honoured ids [] ws) @ filter (\<lambda>i. i \<notin> watch_code ` set ws) ids"
    using e kept_honoured_all [OF assms(1), of ws] leftover_unmatched [OF assms(1), of ws]
    by simp
  show "distinct (map f (ds @ map (\<lambda>i. mk i 0) (leftover ids ws)))"
    using kept_leftover_distinct [OF assms(1), of ws] by (simp only: e)
  show "set (map f (ds @ map (\<lambda>i. mk i 0) (leftover ids ws))) = set ids"
    using kept_leftover_distinct [OF assms(1), of ws] by (simp only: e set_append)
  have "length ds = length (honoured ids [] ws)"
    using decisions_length [OF assms(2)] kept_honoured_all [OF assms(1), of ws] by simp
  then show "drop (length (honoured ids [] ws)) (ds @ map (\<lambda>i. mk i 0) (leftover ids ws))
           = map (\<lambda>i. mk i 0) (leftover ids ws)"
    by simp
qed

lemma kept_skip:
  "watch_code w \<notin> set ids \<Longrightarrow> kept ids (xs @ w # ys) = kept ids (xs @ ys)"
proof (induction xs arbitrary: ids)
  case Nil
  then show ?case by simp
next
  case (Cons x xs)
  have "watch_code w \<notin> set (remove1 (watch_code x) ids)"
    using Cons.prems by (meson notin_set_remove1)
  then show ?case using Cons by simp
qed

lemma leftover_skip:
  "watch_code w \<notin> set ids \<Longrightarrow> leftover ids (xs @ w # ys) = leftover ids (xs @ ys)"
proof (induction xs arbitrary: ids)
  case Nil
  then show ?case by simp
next
  case (Cons x xs)
  have "watch_code w \<notin> set (remove1 (watch_code x) ids)"
    using Cons.prems by (meson notin_set_remove1)
  then show ?case using Cons by simp
qed

lemma dup_inert:
  "distinct ids \<Longrightarrow> watch_code w \<in> watch_code ` set xs \<Longrightarrow>
     kept ids (xs @ w # ys) = kept ids (xs @ ys) \<and>
     leftover ids (xs @ w # ys) = leftover ids (xs @ ys)"
proof (induction xs arbitrary: ids)
  case Nil
  then show ?case by simp
next
  case (Cons x xs)
  let ?r = "remove1 (watch_code x) ids"
  have dr: "distinct ?r" using Cons.prems(1) by simp
  show ?case
  proof (cases "watch_code w = watch_code x")
    case True
    show ?thesis
    proof (cases "watch_code x \<in> set ids")
      case in_ids: True
      have "watch_code w \<notin> set ?r" using True Cons.prems(1) by simp
      then show ?thesis
        using in_ids kept_skip [of w ?r xs ys] leftover_skip [of w ?r xs ys] by simp
    next
      case False
      then have "watch_code w \<notin> set ids" using True by simp
      then show ?thesis
        using kept_skip [of w ids "x # xs" ys] leftover_skip [of w ids "x # xs" ys] by simp
    qed
  next
    case False
    then have m: "watch_code w \<in> watch_code ` set xs" using Cons.prems(2) by auto
    show ?thesis
      using Cons.IH [OF dr m] Cons.IH [OF Cons.prems(1) m] by simp
  qed
qed

lemma kept_first:
  "watch_code w \<in> set ids \<Longrightarrow> watch_code w \<notin> watch_code ` set pre \<Longrightarrow>
     w \<in> set (kept ids (pre @ w # rest))"
proof (induction pre arbitrary: ids)
  case Nil
  then show ?case by simp
next
  case (Cons x pre)
  have ne: "watch_code x \<noteq> watch_code w" using Cons.prems(2) by auto
  then have "watch_code w \<in> set (remove1 (watch_code x) ids)"
    using Cons.prems(1) by simp
  then show ?case using Cons by simp
qed

lemma filter_unique:
  "distinct (map f xs) \<Longrightarrow> x \<in> set xs \<Longrightarrow> filter (\<lambda>d. f d = f x) xs = [x]"
proof (induction xs)
  case Nil
  then show ?case by simp
next
  case (Cons y ys)
  show ?case
  proof (cases "x = y")
    case True
    have "f y \<notin> f ` set ys" using Cons.prems(1) by simp
    then have "\<forall>d \<in> set ys. f d \<noteq> f y" by (metis imageI)
    then have "filter (\<lambda>d. f d = f y) ys = []"
      by (simp add: filter_empty_conv)
    with True show ?thesis by simp
  next
    case False
    then have "x \<in> set ys" using Cons.prems(2) by simp
    moreover have "f y \<noteq> f x" using Cons.prems(1) \<open>x \<in> set ys\<close> by auto
    ultimately show ?thesis using Cons by simp
  qed
qed

lemma first_record_decides:
  assumes "distinct ids"
    and "watch_code w \<in> set ids"
    and "watch_code w \<notin> watch_code ` set pre"
    and "decisions mk (kept ids (pre @ w # rest)) = Inr ds"
    and "\<And>i n. f (mk i n) = i"
  shows "\<exists>n. stock_count (kolichestvo w) = Inr n \<and>
           filter (\<lambda>d. f d = watch_code w)
             (ds @ map (\<lambda>i. mk i 0) (leftover ids (pre @ w # rest))) = [mk (watch_code w) n]"
proof -
  let ?out = "ds @ map (\<lambda>i. mk i 0) (leftover ids (pre @ w # rest))"
  have "w \<in> set (kept ids (pre @ w # rest))"
    using assms(2,3) by (rule kept_first)
  then obtain n where n: "stock_count (kolichestvo w) = Inr n"
    and m: "mk (watch_code w) n \<in> set ds"
    using decisions_mem [OF assms(4)] by blast
  have d: "distinct (map f ?out)"
    using assms(1,4,5) by (rule stocks_shape(2))
  have "mk (watch_code w) n \<in> set ?out" using m by simp
  then have "filter (\<lambda>d. f d = f (mk (watch_code w) n)) ?out = [mk (watch_code w) n]"
    using d by (intro filter_unique)
  then show ?thesis using n by (simp add: assms(5))
qed

section \<open>Examples of \<^verbatim>\<open>int\<close>\<close>

text \<open>
  Whitespace around the digits, a sign and single underscores are accepted; the control
  character \<open>1C\<close> is no whitespace for \<^verbatim>\<open>int\<close>; a no-break space (\<open>C2 A0\<close>) is whitespace
  and the Arabic-Indic digit seven (\<open>D9 A7\<close>) is a digit.
\<close>

lemma int_examples:
  "parse_int '' 7 '' = Some 7"
  "parse_int ''+7'' = Some 7"
  "parse_int ''1_0'' = Some 10"
  "parse_int ''1__0'' = None"
  "parse_int ''abc'' = None"
  "parse_int [CHR 0x1C, CHR ''7''] = None"
  "parse_int [CHR 0xC2, CHR 0xA0, CHR ''5''] = Some 5"
  "parse_int [CHR 0xD9, CHR 0xA7] = Some 7"
  by (simp_all add: parse_int_def parse_unsigned_def ascii_text_def is_space_def is_digit_def
      digit_val_def continuation_def code_point_def unicode_space_def unicode_decimal_def
      decimal_zeros_def char_of_def bit_0)

section \<open>Reading back a printed integer\<close>

lemma digit_char_props:
  "d < 10 \<Longrightarrow> is_digit (digit_char d) \<and> digit_val (digit_char d) = d"
  by (simp add: is_digit_def digit_val_def digit_char_def)

lemma digit_not_space: "is_digit c \<Longrightarrow> \<not> is_space c"
  by (auto simp: is_digit_def is_space_def)

lemma digit_not_sign: "is_digit c \<Longrightarrow> c \<noteq> CHR ''-'' \<and> c \<noteq> CHR ''+''"
  by (auto simp: is_digit_def)

lemma digit_ascii: "is_digit c \<Longrightarrow> (of_char c :: nat) < 128"
  by (simp add: is_digit_def)

lemma string_of_nat_digits: "string_of_nat n \<noteq> [] \<and> (\<forall>c \<in> set (string_of_nat n). is_digit c)"
proof (induction n rule: string_of_nat.induct)
  case (1 n)
  show ?case
  proof (cases "n < 10")
    case True
    then show ?thesis by (simp add: string_of_nat.simps [of n] digit_char_props)
  next
    case False
    have "n mod 10 < 10" by simp
    then have "is_digit (digit_char (n mod 10))" by (simp add: digit_char_props)
    with False 1 show ?thesis by (simp add: string_of_nat.simps [of n])
  qed
qed

lemma scan_digits_step:
  "is_digit c \<Longrightarrow> scan_digits acc (c # cs) = scan_digits (10 * acc + digit_val c) cs"
  by (cases cs) simp_all

lemma scan_digits_all:
  "\<forall>c \<in> set ds. is_digit c \<Longrightarrow> scan_digits acc ds = Some (digits_value acc ds, [])"
proof (induction ds arbitrary: acc)
  case Nil
  show ?case by (simp add: digits_value_def)
next
  case (Cons c cs)
  then have "scan_digits acc (c # cs) = scan_digits (10 * acc + digit_val c) cs"
    by (simp add: scan_digits_step)
  also have "\<dots> = Some (digits_value (10 * acc + digit_val c) cs, [])"
    using Cons by simp
  finally show ?case by (simp add: digits_value_def)
qed

lemma parse_unsigned_all:
  "ds \<noteq> [] \<Longrightarrow> \<forall>c \<in> set ds. is_digit c \<Longrightarrow> parse_unsigned ds = Some (digits_value 0 ds)"
  by (cases ds) (simp_all add: parse_unsigned_def scan_digits_all digits_value_def)

lemma digits_value_string_of_nat: "digits_value 0 (string_of_nat n) = n"
proof (induction n rule: string_of_nat.induct)
  case (1 n)
  show ?case
  proof (cases "n < 10")
    case True
    then show ?thesis
      by (simp add: string_of_nat.simps [of n] digits_value_def digit_char_props)
  next
    case False
    have "n mod 10 < 10" by simp
    then have "digit_val (digit_char (n mod 10)) = n mod 10" by (simp add: digit_char_props)
    moreover have "digits_value 0 (string_of_nat (n div 10)) = n div 10"
      using 1 False by simp
    ultimately show ?thesis
      using False by (simp add: string_of_nat.simps [of n] digits_value_def)
  qed
qed

lemma parse_unsigned_string_of_nat: "parse_unsigned (string_of_nat n) = Some n"
  using string_of_nat_digits [of n]
  by (simp add: parse_unsigned_all digits_value_string_of_nat)

lemma parse_int_digits:
  assumes "ds \<noteq> []" and "\<forall>c \<in> set ds. is_digit c"
  shows "parse_int ds = Some (int (digits_value 0 ds))"
    and "parse_int (CHR ''-'' # ds) = Some (- int (digits_value 0 ds))"
    and "parse_int (CHR ''+'' # ds) = Some (int (digits_value 0 ds))"
proof -
  obtain c cs where cc: "ds = c # cs" using assms(1) by (cases ds) auto
  have dc: "is_digit c" using assms(2) cc by simp
  have a: "list_all (\<lambda>b. (of_char b :: nat) < 128) ds"
    using assms(2) digit_ascii by (simp add: list_all_iff)
  then have t: "ascii_text ds = ds" "ascii_text (CHR ''-'' # ds) = CHR ''-'' # ds"
    "ascii_text (CHR ''+'' # ds) = CHR ''+'' # ds"
    by (simp_all add: ascii_text_def)
  have d: "dropWhile is_space ds = ds"
    using cc digit_not_space [OF dc] by simp
  have m: "dropWhile is_space (CHR ''-'' # ds) = CHR ''-'' # ds"
    by (simp add: is_space_def)
  have p: "dropWhile is_space (CHR ''+'' # ds) = CHR ''+'' # ds"
    by (simp add: is_space_def)
  show "parse_int ds = Some (int (digits_value 0 ds))"
    using digit_not_sign [OF dc] parse_unsigned_all [OF assms]
    by (simp add: parse_int_def t d) (simp add: cc)
  show "parse_int (CHR ''-'' # ds) = Some (- int (digits_value 0 ds))"
    using parse_unsigned_all [OF assms] by (simp only: parse_int_def t m) simp  show "parse_int (CHR ''+'' # ds) = Some (int (digits_value 0 ds))"
    using parse_unsigned_all [OF assms] by (simp only: parse_int_def t p) simp
qed

lemma parse_int_string_of_int: "parse_int (string_of_int i) = Some i"
proof (cases "i < 0")
  case True
  let ?d = "string_of_nat (nat (- i))"
  have d: "?d \<noteq> []" "\<forall>c \<in> set ?d. is_digit c"
    using string_of_nat_digits [of "nat (- i)"] by simp_all
  show ?thesis
    using True parse_int_digits(2) [OF d]
    by (simp add: string_of_int_def digits_value_string_of_nat)
next
  case False
  let ?d = "string_of_nat (nat i)"
  have d: "?d \<noteq> []" "\<forall>c \<in> set ?d. is_digit c"
    using string_of_nat_digits [of "nat i"] by simp_all
  show ?thesis
    using False parse_int_digits(1) [OF d]
    by (simp add: string_of_int_def digits_value_string_of_nat)
qed

lemma stock_count_normalize:
  "(case normalize_quantity (py_str q) of
      None \<Rightarrow> isl (stock_count q)
    | Some n \<Rightarrow> stock_count q = Inr n)"
proof (cases q)
  case PNone
  have "parse_int ''None'' = None"
    by (simp add: parse_int_def parse_unsigned_def ascii_text_def is_space_def is_digit_def)
  with PNone show ?thesis
    by (simp add: normalize_quantity_def stock_count_def)
next
  case (PStr s)
  then show ?thesis
    by (simp add: normalize_quantity_def stock_count_def split: option.splits)
next
  case (PInt i)
  then show ?thesis
    by (simp add: normalize_quantity_def stock_count_def parse_int_string_of_int)
qed

section \<open>Completeness and order of the stock decisions\<close>

lemma example_counts:
  "\<forall>w \<in> set example_feed. \<exists>n. stock_count (kolichestvo w) = Inr n"
  by (simp add: example_feed_def stock_count_def parse_int_def parse_unsigned_def ascii_text_def is_space_def
      is_digit_def digit_val_def)

text \<open>
  Claim C1. For every duplicate-free list of known offer ids and every feed whose quantity
  cells all normalise, \<^verbatim>\<open>create_stocks\<close> of both modules returns a list with exactly one
  decision per known offer id: the ids of the decisions are distinct and are the known
  ids. The decisions of the honoured feed records come first, in feed order, followed by
  the known ids that no feed record carries, in the order of the id list, each with stock
  zero.
\<close>

theorem create_stocks_complete_ordered:
  assumes "distinct ids"
    and "\<forall>w \<in> set ws. \<exists>n. stock_count (kolichestvo w) = Inr n"
  shows "(\<exists>out ids'. seller_create_stocks ws ids = Inr (out, ids')
            \<and> map offer_id out
                = map watch_code (honoured ids [] ws) @ filter (\<lambda>i. i \<notin> watch_code ` set ws) ids
            \<and> distinct (map offer_id out) \<and> set (map offer_id out) = set ids
            \<and> (\<forall>d \<in> set (drop (length (honoured ids [] ws)) out). stock d = 0))
       \<and> (\<exists>out ids'. market_create_stocks date ws ids wh = Inr (out, ids')
            \<and> map sku out
                = map watch_code (honoured ids [] ws) @ filter (\<lambda>i. i \<notin> watch_code ` set ws) ids
            \<and> distinct (map sku out) \<and> set (map sku out) = set ids
            \<and> (\<forall>d \<in> set (drop (length (honoured ids [] ws)) out). map count (items d) = [0]))"
proof
  have ok: "\<forall>w \<in> set (kept ids ws). \<exists>n. stock_count (kolichestvo w) = Inr n"
    using assms(2) kept_subset [of ids ws] by blast
  obtain ds where ds: "decisions seller_entry (kept ids ws) = Inr ds"
    using decisions_total [OF ok] by blast
  have f: "\<And>i n. offer_id (seller_entry i n) = i" by (simp add: seller_entry_def)
  note sh = stocks_shape [OF assms(1) ds f]
  have r: "seller_create_stocks ws ids
             = Inr (ds @ map (\<lambda>i. seller_entry i 0) (leftover ids ws), leftover ids ws)"
    using ds by (simp add: seller_create_stocks_eq)
  have "\<forall>d \<in> set (drop (length (honoured ids [] ws))
                  (ds @ map (\<lambda>i. seller_entry i 0) (leftover ids ws))). stock d = 0"
    by (simp only: sh(4)) (auto simp: seller_entry_def)
  with r sh(1,2,3) show "\<exists>out ids'. seller_create_stocks ws ids = Inr (out, ids')
            \<and> map offer_id out
                = map watch_code (honoured ids [] ws) @ filter (\<lambda>i. i \<notin> watch_code ` set ws) ids
            \<and> distinct (map offer_id out) \<and> set (map offer_id out) = set ids
            \<and> (\<forall>d \<in> set (drop (length (honoured ids [] ws)) out). stock d = 0)"
    by blast
next
  have ok: "\<forall>w \<in> set (kept ids ws). \<exists>n. stock_count (kolichestvo w) = Inr n"
    using assms(2) kept_subset [of ids ws] by blast
  obtain ds where ds: "decisions (market_entry wh date) (kept ids ws) = Inr ds"
    using decisions_total [OF ok] by blast
  have f: "\<And>i n. sku (market_entry wh date i n) = i" by (simp add: market_entry_def)
  note sh = stocks_shape [OF assms(1) ds f]
  have r: "market_create_stocks date ws ids wh
             = Inr (ds @ map (\<lambda>i. market_entry wh date i 0) (leftover ids ws), leftover ids ws)"
    using ds by (simp add: market_create_stocks_eq)
  have "\<forall>d \<in> set (drop (length (honoured ids [] ws))
                  (ds @ map (\<lambda>i. market_entry wh date i 0) (leftover ids ws))).
          map count (items d) = [0]"
    by (simp only: sh(4)) (auto simp: market_entry_def)
  with r sh(1,2,3) show "\<exists>out ids'. market_create_stocks date ws ids wh = Inr (out, ids')
            \<and> map sku out
                = map watch_code (honoured ids [] ws) @ filter (\<lambda>i. i \<notin> watch_code ` set ws) ids
            \<and> distinct (map sku out) \<and> set (map sku out) = set ids
            \<and> (\<forall>d \<in> set (drop (length (honoured ids [] ws)) out). map count (items d) = [0])"
    by blast
qed

theorem create_stocks_complete_ordered_witness:
  "distinct example_ids
   \<and> list_all (\<lambda>w. \<exists>n. stock_count (kolichestvo w) = Inr n) example_feed
   \<and> (\<exists>out ids'. seller_create_stocks example_feed example_ids = Inr (out, ids')
         \<and> map offer_id out = [''123'', ''456''] \<and> distinct (map offer_id out)
         \<and> set (map offer_id out) = set example_ids)"
proof -
  have h1: "distinct example_ids" by (simp add: example_ids_def)
  have e: "map watch_code (honoured example_ids [] example_feed)
             @ filter (\<lambda>i. i \<notin> watch_code ` set example_feed) example_ids = [''123'', ''456'']"
    by (simp add: example_ids_def example_feed_def watch_code_def)
  from create_stocks_complete_ordered [OF h1 example_counts, of "''d''" "''w''"]
  obtain out ids' where r: "seller_create_stocks example_feed example_ids = Inr (out, ids')"
    and m: "map offer_id out = map watch_code (honoured example_ids [] example_feed)
             @ filter (\<lambda>i. i \<notin> watch_code ` set example_feed) example_ids"
    and d: "distinct (map offer_id out)" and s: "set (map offer_id out) = set example_ids"
    by blast
  have m': "map offer_id out = [''123'', ''456'']" using m by (simp only: e)
  have h2: "list_all (\<lambda>w. \<exists>n. stock_count (kolichestvo w) = Inr n) example_feed"
    using example_counts by (simp only: list_all_iff)
  show ?thesis
    by (intro conjI exI) (rule h1 h2 r m' d s)+
qed

section \<open>Records that repeat a code\<close>

text \<open>
  Claim C5, as stated for any list of known offer ids, fails: \<^verbatim>\<open>list.remove\<close> deletes one
  occurrence of the id, so when the list holds an id twice the second record with that
  code is matched as well and contributes a second decision.
\<close>

theorem duplicate_code_repeated_id:
  "seller_create_stocks
      [\<lparr>kod = PStr ''1'', kolichestvo = PStr ''5'', tsena = PStr ''''\<rparr>,
       \<lparr>kod = PStr ''1'', kolichestvo = PStr ''9'', tsena = PStr ''''\<rparr>] [''1'', ''1'']
     = Inr ([\<lparr>offer_id = ''1'', stock = 5\<rparr>, \<lparr>offer_id = ''1'', stock = 9\<rparr>], [])
   \<and> market_create_stocks ''d''
      [\<lparr>kod = PStr ''1'', kolichestvo = PStr ''5'', tsena = PStr ''''\<rparr>,
       \<lparr>kod = PStr ''1'', kolichestvo = PStr ''9'', tsena = PStr ''''\<rparr>] [''1'', ''1''] ''w''
     = Inr ([market_entry ''w'' ''d'' ''1'' 5, market_entry ''w'' ''d'' ''1'' 9], [])"
  by (simp add: seller_create_stocks_def market_create_stocks_def stock_count_def parse_int_def
      parse_unsigned_def ascii_text_def is_space_def is_digit_def digit_val_def)

text \<open>
  Claim C5, amended: for a duplicate-free list of known offer ids. When a record \<open>w\<close> is
  the first of the feed with its code, the code is known, and a later record \<open>w'\<close> has the
  same code, then \<open>w'\<close> is inert: \<^verbatim>\<open>create_stocks\<close> returns what it returns on the feed
  without \<open>w'\<close> (its quantity is not even read). The only decision for that id is the one
  built from the quantity of \<open>w\<close>.
\<close>

theorem duplicate_code_first_wins:
  assumes "distinct ids"
    and "watch_code w \<in> set ids"
    and "watch_code w \<notin> watch_code ` set pre"
    and "watch_code w' = watch_code w"
  shows "seller_create_stocks (pre @ w # mid @ w' # post) ids
           = seller_create_stocks (pre @ w # mid @ post) ids
       \<and> (\<forall>out ids'. seller_create_stocks (pre @ w # mid @ w' # post) ids = Inr (out, ids') \<longrightarrow>
            (\<exists>n. stock_count (kolichestvo w) = Inr n \<and>
               filter (\<lambda>d. offer_id d = watch_code w) out
                 = [\<lparr>offer_id = watch_code w, stock = n\<rparr>]))
       \<and> market_create_stocks date (pre @ w # mid @ w' # post) ids wh
           = market_create_stocks date (pre @ w # mid @ post) ids wh
       \<and> (\<forall>out ids'. market_create_stocks date (pre @ w # mid @ w' # post) ids wh = Inr (out, ids') \<longrightarrow>
            (\<exists>n. stock_count (kolichestvo w) = Inr n \<and>
               filter (\<lambda>d. sku d = watch_code w) out = [market_entry wh date (watch_code w) n]))"
proof -
  have "watch_code w' \<in> watch_code ` set (pre @ w # mid)" using assms(4) by simp
  from dup_inert [OF assms(1) this, of post]
  have k: "kept ids (pre @ w # mid @ w' # post) = kept ids (pre @ w # mid @ post)"
    and l: "leftover ids (pre @ w # mid @ w' # post) = leftover ids (pre @ w # mid @ post)"
    by simp_all
  have a: "seller_create_stocks (pre @ w # mid @ w' # post) ids
             = seller_create_stocks (pre @ w # mid @ post) ids"
    by (simp only: seller_create_stocks_eq k l)
  have c: "market_create_stocks date (pre @ w # mid @ w' # post) ids wh
             = market_create_stocks date (pre @ w # mid @ post) ids wh"
    by (simp only: market_create_stocks_eq k l)
  have b: "\<exists>n. stock_count (kolichestvo w) = Inr n \<and>
               filter (\<lambda>d. offer_id d = watch_code w) out
                 = [\<lparr>offer_id = watch_code w, stock = n\<rparr>]"
    if "seller_create_stocks (pre @ w # mid @ w' # post) ids = Inr (out, ids')" for out ids'
  proof -
    let ?ws = "pre @ w # (mid @ w' # post)"
    have t: "seller_create_stocks ?ws ids = Inr (out, ids')" using that by simp
    obtain ds where ds: "decisions seller_entry (kept ids ?ws) = Inr ds"
      using t by (cases "decisions seller_entry (kept ids ?ws)")
        (simp_all add: seller_create_stocks_eq)
    have out: "out = ds @ map (\<lambda>i. seller_entry i 0) (leftover ids ?ws)"
      using t ds by (auto simp: seller_create_stocks_eq)
    have f: "\<And>i n. offer_id (seller_entry i n) = i" by (simp add: seller_entry_def)
    from first_record_decides [OF assms(1,2,3) ds f]
    show ?thesis by (simp only: out) (simp add: seller_entry_def)
  qed
  have d: "\<exists>n. stock_count (kolichestvo w) = Inr n \<and>
               filter (\<lambda>d. sku d = watch_code w) out = [market_entry wh date (watch_code w) n]"
    if "market_create_stocks date (pre @ w # mid @ w' # post) ids wh = Inr (out, ids')" for out ids'
  proof -
    let ?ws = "pre @ w # (mid @ w' # post)"
    have t: "market_create_stocks date ?ws ids wh = Inr (out, ids')" using that by simp
    obtain ds where ds: "decisions (market_entry wh date) (kept ids ?ws) = Inr ds"
      using t by (cases "decisions (market_entry wh date) (kept ids ?ws)")
        (simp_all add: market_create_stocks_eq)
    have out: "out = ds @ map (\<lambda>i. market_entry wh date i 0) (leftover ids ?ws)"
      using t ds by (auto simp: market_create_stocks_eq)
    have f: "\<And>i n. sku (market_entry wh date i n) = i" by (simp add: market_entry_def)
    from first_record_decides [OF assms(1,2,3) ds f]
    show ?thesis by (simp only: out)
  qed
  from a b c d show ?thesis by blast
qed

theorem duplicate_code_first_wins_witness:
  "distinct [''1'']
   \<and> watch_code \<lparr>kod = PStr ''1'', kolichestvo = PStr ''5'', tsena = PStr ''''\<rparr> \<in> set [''1'']
   \<and> watch_code \<lparr>kod = PStr ''1'', kolichestvo = PStr ''5'', tsena = PStr ''''\<rparr> \<notin> watch_code ` set []
   \<and> watch_code \<lparr>kod = PStr ''1'', kolichestvo = PStr ''9'', tsena = PStr ''''\<rparr>
       = watch_code \<lparr>kod = PStr ''1'', kolichestvo = PStr ''5'', tsena = PStr ''''\<rparr>
   \<and> seller_create_stocks
         [\<lparr>kod = PStr ''1'', kolichestvo = PStr ''5'', tsena = PStr ''''\<rparr>,
          \<lparr>kod = PStr ''1'', kolichestvo = PStr ''9'', tsena = PStr ''''\<rparr>] [''1'']
       = seller_create_stocks [\<lparr>kod = PStr ''1'', kolichestvo = PStr ''5'', tsena = PStr ''''\<rparr>] [''1'']
   \<and> seller_create_stocks
         [\<lparr>kod = PStr ''1'', kolichestvo = PStr ''5'', tsena = PStr ''''\<rparr>,
          \<lparr>kod = PStr ''1'', kolichestvo = PStr ''9'', tsena = PStr ''''\<rparr>] [''1'']
       = Inr ([\<lparr>offer_id = ''1'', stock = 5\<rparr>], [])"
proof -
  let ?w = "\<lparr>kod = PStr ''1'', kolichestvo = PStr ''5'', tsena = PStr ''''\<rparr>"
  let ?w' = "\<lparr>kod = PStr ''1'', kolichestvo = PStr ''9'', tsena = PStr ''''\<rparr>"
  have h1: "distinct [''1'']" by simp
  have h2: "watch_code ?w \<in> set [''1'']" by (simp add: watch_code_def)
  have h3: "watch_code ?w \<notin> watch_code ` set []" by simp
  have h4: "watch_code ?w' = watch_code ?w" by (simp add: watch_code_def)
  have a: "seller_create_stocks [?w, ?w'] [''1''] = seller_create_stocks [?w] [''1'']"
    using duplicate_code_first_wins [OF h1 h2 h3 h4, of "[]" "[]" "''d''" "''w''"] by simp
  have b: "seller_create_stocks [?w] [''1''] = Inr ([\<lparr>offer_id = ''1'', stock = 5\<rparr>], [])"
    by (simp add: seller_create_stocks_def stock_count_def parse_int_def parse_unsigned_def ascii_text_def is_space_def
        is_digit_def digit_val_def)
  have c: "seller_create_stocks [?w, ?w'] [''1''] = Inr ([\<lparr>offer_id = ''1'', stock = 5\<rparr>], [])"
    using a b by (rule trans)
  show ?thesis
    by (intro conjI) (rule h1 h2 h3 h4 a c)+
qed

section \<open>The quantity rule\<close>

lemma stock_count_Inr_normalize:
  "stock_count q = Inr n \<Longrightarrow> normalize_quantity (py_str q) = Some n"
  using stock_count_normalize [of q] by (cases "normalize_quantity (py_str q)") simp_all

text \<open>
  The scan of \<^verbatim>\<open>int\<close> reads exactly the integer literals: \<^const>\<open>scan_digits\<close> is
  \<^const>\<open>digit_run\<close>, and \<^const>\<open>parse_int\<close> is \<^const>\<open>integer_literal\<close>.
\<close>

lemma literal_char_simps:
  "is_digit c \<Longrightarrow> literal_char c"
  "literal_char CHR ''_''"
  "\<not> is_digit CHR ''_''"
  by (simp_all add: literal_char_def is_digit_def)

lemma double_underscore_digit:
  "is_digit c \<Longrightarrow> double_underscore (c # cs) = double_underscore cs"
  by (cases cs) (auto simp: is_digit_def)

lemma well_separated_digit:
  "is_digit c \<Longrightarrow> well_separated (c # cs) = well_separated cs"
  by (cases cs) (auto simp: well_separated_def double_underscore_digit is_digit_def)

lemma well_separated_sep:
  "is_digit d \<Longrightarrow> well_separated (CHR ''_'' # d # cs) = well_separated cs"
  by (cases cs) (auto simp: well_separated_def double_underscore_digit is_digit_def)

lemma well_separated_bad:
  "\<not> well_separated [CHR ''_'']"
  "\<not> is_digit d \<Longrightarrow> \<not> well_separated (CHR ''_'' # takeWhile literal_char (d # cs))"
  by (auto simp: well_separated_def literal_char_def is_digit_def)

lemma digits_value_Cons:
  "digits_value acc (c # cs) = digits_value (10 * acc + digit_val c) cs"
  by (simp add: digits_value_def)

lemma digit_run_Nil: "digit_run acc [] = Some (acc, [])"
  by (simp add: digit_run_def well_separated_def digits_value_def)

lemma digit_run_digit:
  "is_digit c \<Longrightarrow> digit_run acc (c # cs) = digit_run (10 * acc + digit_val c) cs"
  by (simp add: digit_run_def literal_char_simps well_separated_digit digits_value_Cons)

lemma digit_run_sep:
  "is_digit d \<Longrightarrow> digit_run acc (CHR ''_'' # d # cs) = digit_run (10 * acc + digit_val d) cs"
  by (simp add: digit_run_def literal_char_simps well_separated_sep digits_value_Cons)

lemma digit_run_bad:
  "digit_run acc [CHR ''_''] = None"
  "\<not> is_digit d \<Longrightarrow> digit_run acc (CHR ''_'' # d # cs) = None"
proof -
  show "digit_run acc [CHR ''_''] = None"
    by (simp add: digit_run_def literal_char_simps well_separated_bad(1))
  assume d: "\<not> is_digit d"
  have "takeWhile literal_char (CHR ''_'' # d # cs) = CHR ''_'' # takeWhile literal_char (d # cs)"
    by (simp add: literal_char_simps)
  then show "digit_run acc (CHR ''_'' # d # cs) = None"
    using well_separated_bad(2) [OF d, of cs] by (simp only: digit_run_def if_False)
qed

lemma digit_run_stop:
  "\<not> literal_char c \<Longrightarrow> digit_run acc (c # cs) = Some (acc, c # cs)"
  by (simp add: digit_run_def well_separated_def digits_value_def)

lemma scan_digits_run: "scan_digits acc u = digit_run acc u"
proof (induction acc u rule: scan_digits.induct)
  case (1 acc)
  show ?case by (simp add: digit_run_Nil)
next
  case (2 acc c)
  show ?case
  proof (cases "is_digit c")
    case True
    then show ?thesis by (simp add: digit_run_digit digit_run_Nil)
  next
    case False
    then show ?thesis
      by (cases "c = CHR ''_''") (simp_all add: digit_run_bad digit_run_stop literal_char_def)
  qed
next
  case (3 acc c d cs)
  show ?case
  proof (cases "is_digit c")
    case True
    then show ?thesis using 3(1) [OF True] by (simp add: digit_run_digit)
  next
    case False
    show ?thesis
    proof (cases "c = CHR ''_''")
      case u: True
      show ?thesis
      proof (cases "is_digit d")
        case True
        then show ?thesis
          using 3(2) [OF False u True] u False by (simp add: digit_run_sep)
      next
        case nd: False
        then show ?thesis using u False by (simp add: digit_run_bad)
      qed
    next
      case nu: False
      with False show ?thesis by (simp add: digit_run_stop literal_char_def)
    qed
  qed
qed


lemma literal_not_space: "literal_char c \<Longrightarrow> \<not> is_space c"
  by (auto simp: literal_char_def is_digit_def is_space_def)

lemma rtrim_split:
  "u = rev (dropWhile is_space (rev u)) @ rev (takeWhile is_space (rev u))"
  by (metis rev_append rev_rev_ident takeWhile_dropWhile_id)

lemma rtrim_Cons:
  "\<not> is_space c \<Longrightarrow> rev (dropWhile is_space (rev (c # cs))) = c # rev (dropWhile is_space (rev cs))"
  by (simp add: dropWhile_append3)

lemma spaces_no_literal:
  assumes "\<forall>x \<in> set t. is_space x"
  shows "takeWhile literal_char t = []" and "dropWhile literal_char t = t"
  using assms literal_not_space by (cases t; auto)+

lemma literals_no_space:
  assumes "\<forall>x \<in> set b. literal_char x"
  shows "dropWhile is_space b = b"
  using assms literal_not_space by (cases b) auto

lemma rtrim_literal:
  assumes "list_all literal_char (rev (dropWhile is_space (rev ds)))"
  shows "takeWhile literal_char ds = rev (dropWhile is_space (rev ds))"
    and "list_all is_space (dropWhile literal_char ds)"
proof -
  let ?r = "rev (dropWhile is_space (rev ds))" and ?t = "rev (takeWhile is_space (rev ds))"
  have ds: "ds = ?r @ ?t" by (rule rtrim_split)
  have t: "\<forall>x \<in> set ?t. is_space x" by (auto dest: set_takeWhileD)
  have r: "\<And>x. x \<in> set ?r \<Longrightarrow> literal_char x" using assms by (simp add: list_all_iff)
  have "takeWhile literal_char (?r @ ?t) = ?r @ takeWhile literal_char ?t"
    using r by (rule takeWhile_append2)
  then have "takeWhile literal_char (?r @ ?t) = ?r"
    by (simp only: spaces_no_literal(1) [OF t] append_Nil2)
  then show "takeWhile literal_char ds = ?r" using ds by simp
  have "dropWhile literal_char (?r @ ?t) = dropWhile literal_char ?t"
    using r by (rule dropWhile_append2)
  then have "dropWhile literal_char (?r @ ?t) = ?t"
    by (simp only: spaces_no_literal(2) [OF t])
  then have "dropWhile literal_char ds = ?t" using ds by simp
  then show "list_all is_space (dropWhile literal_char ds)"
    using t by (simp add: list_all_iff)
qed

lemma literal_rtrim:
  assumes "list_all is_space (dropWhile literal_char ds)"
  shows "rev (dropWhile is_space (rev ds)) = takeWhile literal_char ds"
proof -
  let ?b = "takeWhile literal_char ds" and ?t = "dropWhile literal_char ds"
  have ds: "rev ds = rev ?t @ rev ?b"
    by (metis rev_append takeWhile_dropWhile_id)
  have t: "\<And>x. x \<in> set (rev ?t) \<Longrightarrow> is_space x" using assms by (simp add: list_all_iff)
  have b: "\<forall>x \<in> set (rev ?b). literal_char x" by (auto dest: set_takeWhileD)
  have "dropWhile is_space (rev ?t @ rev ?b) = dropWhile is_space (rev ?b)"
    using t by (rule dropWhile_append2)
  then have "dropWhile is_space (rev ds) = rev ?b"
    by (simp only: ds literals_no_space [OF b])
  then show ?thesis by simp
qed

lemma grouped_Cons:
  "is_digit d \<Longrightarrow> grouped (d # b) = (list_all literal_char b \<and> well_separated b)"
  by (cases b) (auto simp: grouped_def well_separated_def literal_char_simps double_underscore_digit)

lemma parse_unsigned_grouped:
  "parse_unsigned u =
     (if grouped (rev (dropWhile is_space (rev u)))
      then Some (digits_value 0 (filter is_digit (rev (dropWhile is_space (rev u)))))
      else None)"
proof (cases u)
  case Nil
  then show ?thesis by (simp add: parse_unsigned_def grouped_def)
next
  case (Cons d ds)
  let ?r = "rev (dropWhile is_space (rev ds))"
  show ?thesis
  proof (cases "is_digit d")
    case False
    have "\<not> grouped (rev (dropWhile is_space (rev (d # ds))))"
    proof
      assume g: "grouped (rev (dropWhile is_space (rev (d # ds))))"
      let ?x = "rev (dropWhile is_space (rev (d # ds)))"
      have "?x \<noteq> []" "is_digit (hd ?x)" using g by (simp_all add: grouped_def)
      moreover have "d # ds = ?x @ rev (takeWhile is_space (rev (d # ds)))" by (rule rtrim_split)
      ultimately have "is_digit d" by (metis hd_append2 list.sel(1))
      with False show False by simp
    qed
    with False Cons show ?thesis by (simp add: parse_unsigned_def)
  next
    case True
    have r: "rev (dropWhile is_space (rev (d # ds))) = d # ?r"
      using digit_not_space [OF True] by (rule rtrim_Cons)
    show ?thesis
    proof (cases "list_all is_space (dropWhile literal_char ds)")
      case sp: True
      have b: "?r = takeWhile literal_char ds" using sp by (rule literal_rtrim)
      have "list_all literal_char (takeWhile literal_char ds)"
        by (auto simp: list_all_iff dest: set_takeWhileD)
      then have g: "grouped (d # ?r) = well_separated (takeWhile literal_char ds)"
        using True by (simp add: grouped_Cons b)
      show ?thesis
        using True sp
        by (simp only: Cons r g)
          (simp add: parse_unsigned_def scan_digits_run digit_run_def b digits_value_Cons)
    next
      case nsp: False
      have "\<not> list_all literal_char ?r" using nsp rtrim_literal(2) [of ds] by blast
      then have g: "\<not> grouped (d # ?r)" using True by (simp add: grouped_Cons)
      show ?thesis
        using True nsp
        by (simp only: Cons r g)
          (simp add: parse_unsigned_def scan_digits_run digit_run_def)
    qed
  qed
qed

lemma parse_int_literal: "parse_int s = integer_literal s"
proof (cases "dropWhile is_space (ascii_text s)")
  case Nil
  show ?thesis by (simp add: parse_int_def integer_literal_def trim_def grouped_def Nil)
next
  case (Cons c cs)
  have c: "\<not> is_space c"
    using hd_dropWhile [of is_space "ascii_text s"] by (simp add: Cons)
  have t: "trim (ascii_text s) = c # rev (dropWhile is_space (rev cs))"
    by (simp only: trim_def Cons rtrim_Cons [OF c])
  show ?thesis
  proof (cases "c = CHR ''-'' \<or> c = CHR ''+''")
    case True
    then show ?thesis
      by (auto simp: parse_int_def Cons integer_literal_def t parse_unsigned_grouped [of cs])
  next
    case False
    let ?r = "rev (dropWhile is_space (rev cs))"
    have u: "parse_unsigned (c # cs) =
               (if grouped (c # ?r) then Some (digits_value 0 (filter is_digit (c # ?r))) else None)"
      by (simp only: parse_unsigned_grouped [of "c # cs"] rtrim_Cons [OF c])
    have "parse_int s = map_option int (parse_unsigned (c # cs))"
      using False by (simp add: parse_int_def Cons)
    also have "\<dots> = integer_literal s"
      using False by (simp only: u integer_literal_def t Let_def) simp
    finally show ?thesis .
  qed
qed


lemma exact_integer_parse:
  assumes "exact_integer tok = Some v"
  shows "parse_int tok = Some v"
proof (cases tok)
  case Nil
  with assms show ?thesis by (simp add: exact_integer_def Let_def)
next
  case (Cons c cs)
  show ?thesis
  proof (cases "c = CHR ''-'' \<or> c = CHR ''+''")
    case True
    have d: "cs \<noteq> []" "\<forall>x \<in> set cs. is_digit x"
      using assms True Cons by (auto simp: exact_integer_def Let_def list_all_iff split: if_splits)
    show ?thesis
      using assms True parse_int_digits(2,3) [OF d]
      by (auto simp: exact_integer_def Let_def Cons split: if_splits)
  next
    case False
    have d: "c # cs \<noteq> []" "\<forall>x \<in> set (c # cs). is_digit x"
      using assms False Cons by (auto simp: exact_integer_def Let_def list_all_iff split: if_splits)
    show ?thesis
      using assms False parse_int_digits(1) [OF d]
      by (auto simp: exact_integer_def Let_def Cons split: if_splits)
  qed
qed

lemma normalize_quantity_literal: "normalize_quantity tok = literal_quantity tok"
  by (simp add: normalize_quantity_def literal_quantity_def parse_int_literal)

lemma exact_quantity_normalize:
  "exact_quantity tok = Some n \<Longrightarrow> normalize_quantity tok = Some n"
  by (auto simp: exact_quantity_def normalize_quantity_def exact_integer_parse split: if_splits)

lemma stock_count_literal:
  "(stock_count q = Inr n) = (literal_quantity (py_str q) = Some n)"
  "isl (stock_count q) = (literal_quantity (py_str q) = None)"
  using stock_count_normalize [of q]
  by (cases "normalize_quantity (py_str q)"; cases "stock_count q";
      simp add: normalize_quantity_literal)+

lemma decisions_fail:
  "isl (decisions mk ws) = list_ex (\<lambda>w. isl (stock_count (kolichestvo w))) ws"
  by (induction ws) (auto split: sum.splits)

lemma decisions_each:
  "decisions mk ws = Inr ds \<Longrightarrow>
     list_all2 (\<lambda>w d. \<exists>n. stock_count (kolichestvo w) = Inr n \<and> d = mk (watch_code w) n) ws ds"
  by (induction ws arbitrary: ds) (auto split: sum.splits)

lemma literal_examples:
  "integer_literal '' 7 '' = Some 7"
  "integer_literal ''1_0'' = Some 10"
  "integer_literal ''1__0'' = None"
  "integer_literal ''abc'' = None"
  "exact_integer ''-12'' = Some (- 12)"
  "exact_integer '' 7 '' = None"
  "exact_integer ''1_0'' = None"
  by (simp_all add: integer_literal_def exact_integer_def trim_def grouped_def literal_char_def
      ascii_text_def digits_value_def is_space_def is_digit_def digit_val_def)

text \<open>
  Claim C2, as stated, fails: \<^verbatim>\<open>create_stocks\<close> reads more tokens than the exact textual
  integers. The token \<open>1_0\<close> is no exact textual integer, so the rule of the specification
  fails on it with \<open>InvalidQuantityFormat\<close>; \<^verbatim>\<open>int\<close> reads it as 10, and both modules return
  a decision with the count 10.
\<close>

theorem quantity_underscore_token:
  "exact_quantity ''1_0'' = None
   \<and> seller_create_stocks
        [\<lparr>kod = PStr ''7'', kolichestvo = PStr ''1_0'', tsena = PStr []\<rparr>] [''7'']
       = Inr ([\<lparr>offer_id = ''7'', stock = 10\<rparr>], [])
   \<and> market_create_stocks ''d''
        [\<lparr>kod = PStr ''7'', kolichestvo = PStr ''1_0'', tsena = PStr []\<rparr>] [''7''] ''w''
       = Inr ([market_entry ''w'' ''d'' ''7'' 10], [])"
  by (simp add: exact_quantity_def exact_integer_def seller_create_stocks_def
      market_create_stocks_def stock_count_def parse_int_def parse_unsigned_def ascii_text_def
      is_space_def is_digit_def digit_val_def)

text \<open>
  Claim C2, amended. For every feed and every list of offer ids, in both modules, with the
  codes and quantities of the feed at most 4300 characters long (below the interpreter's
  default limit on digits, so that \<^verbatim>\<open>int\<close> and \<^verbatim>\<open>str\<close> behave as modelled under every
  setting of the limit):

  \<^item> \<^verbatim>\<open>create_stocks\<close> fails exactly when the token of some matched record (\<^verbatim>\<open>str\<close> of its
    quantity cell) is neither \<open>>10\<close> nor \<open>1\<close> nor an integer literal as
    \<^const>\<open>integer_literal\<close> describes it; the quantity of a record that is not matched is
    never read;
  \<^item> when it returns, the decisions of the matched records come first, in feed order, and
    the count of each is 100 for the token \<open>>10\<close>, 0 for the token \<open>1\<close>, and otherwise the
    value of the token as an integer literal; no other token is treated specially;
  \<^item> on every token for which the rule of the specification gives a count (the two
    sentinels and the exact textual integers), the code computes that count.
\<close>

theorem quantity_normalization:
  assumes "list_all (\<lambda>w. length (py_str (kod w)) \<le> 4300
                         \<and> length (py_str (kolichestvo w)) \<le> 4300) ws"
  shows "(isl (seller_create_stocks ws ids)
            = list_ex (\<lambda>w. literal_quantity (py_str (kolichestvo w)) = None) (kept ids ws))
       \<and> (\<forall>out ids'. seller_create_stocks ws ids = Inr (out, ids') \<longrightarrow>
            list_all2 (\<lambda>w d. \<exists>n. literal_quantity (py_str (kolichestvo w)) = Some n
                                  \<and> d = \<lparr>offer_id = watch_code w, stock = n\<rparr>)
              (kept ids ws) (take (length (kept ids ws)) out))
       \<and> (isl (market_create_stocks date ws ids wh)
            = list_ex (\<lambda>w. literal_quantity (py_str (kolichestvo w)) = None) (kept ids ws))
       \<and> (\<forall>out ids'. market_create_stocks date ws ids wh = Inr (out, ids') \<longrightarrow>
            list_all2 (\<lambda>w d. \<exists>n. literal_quantity (py_str (kolichestvo w)) = Some n
                                  \<and> d = market_entry wh date (watch_code w) n)
              (kept ids ws) (take (length (kept ids ws)) out))
       \<and> (\<forall>w \<in> set ws. \<forall>n. exact_quantity (py_str (kolichestvo w)) = Some n \<longrightarrow>
            stock_count (kolichestvo w) = Inr n)"
proof -
  let ?k = "kept ids ws"
  have fail: "isl (decisions mk ?k)
                = list_ex (\<lambda>w. literal_quantity (py_str (kolichestvo w)) = None) ?k"
    for mk :: "string \<Rightarrow> int \<Rightarrow> 'd"
    by (simp add: decisions_fail stock_count_literal(2))
  have each: "list_all2 (\<lambda>w d. \<exists>n. literal_quantity (py_str (kolichestvo w)) = Some n
                                  \<and> d = mk (watch_code w) n) ?k ds"
    if "decisions mk ?k = Inr ds" for mk :: "string \<Rightarrow> int \<Rightarrow> 'd" and ds
    using decisions_each [OF that] by (simp add: stock_count_literal(1))
  have a: "isl (seller_create_stocks ws ids)
             = list_ex (\<lambda>w. literal_quantity (py_str (kolichestvo w)) = None) ?k"
    using fail [of seller_entry]
    by (cases "decisions seller_entry ?k") (simp_all add: seller_create_stocks_eq)
  have c: "isl (market_create_stocks date ws ids wh)
             = list_ex (\<lambda>w. literal_quantity (py_str (kolichestvo w)) = None) ?k"
    using fail [of "market_entry wh date"]
    by (cases "decisions (market_entry wh date) ?k") (simp_all add: market_create_stocks_eq)
  have b: "list_all2 (\<lambda>w d. \<exists>n. literal_quantity (py_str (kolichestvo w)) = Some n
                                  \<and> d = \<lparr>offer_id = watch_code w, stock = n\<rparr>)
              ?k (take (length ?k) out)"
    if r: "seller_create_stocks ws ids = Inr (out, ids')" for out ids'
  proof -
    obtain ds where ds: "decisions seller_entry ?k = Inr ds"
      using r by (cases "decisions seller_entry ?k") (simp_all add: seller_create_stocks_eq)
    have out: "out = ds @ map (\<lambda>i. seller_entry i 0) (leftover ids ws)"
      using r ds by (auto simp: seller_create_stocks_eq)
    have "take (length ?k) out = ds"
      using decisions_length [OF ds] by (simp add: out)
    then show ?thesis using each [OF ds] by (simp add: seller_entry_def)
  qed
  have d: "list_all2 (\<lambda>w d. \<exists>n. literal_quantity (py_str (kolichestvo w)) = Some n
                                  \<and> d = market_entry wh date (watch_code w) n)
              ?k (take (length ?k) out)"
    if r: "market_create_stocks date ws ids wh = Inr (out, ids')" for out ids'
  proof -
    obtain ds where ds: "decisions (market_entry wh date) ?k = Inr ds"
      using r by (cases "decisions (market_entry wh date) ?k")
        (simp_all add: market_create_stocks_eq)
    have out: "out = ds @ map (\<lambda>i. market_entry wh date i 0) (leftover ids ws)"
      using r ds by (auto simp: market_create_stocks_eq)
    have "take (length ?k) out = ds"
      using decisions_length [OF ds] by (simp add: out)
    then show ?thesis using each [OF ds] by simp
  qed
  have e: "\<forall>w \<in> set ws. \<forall>n. exact_quantity (py_str (kolichestvo w)) = Some n \<longrightarrow>
            stock_count (kolichestvo w) = Inr n"
    by (auto simp: stock_count_literal(1) normalize_quantity_literal [symmetric]
        dest: exact_quantity_normalize)
  from a b c d e show ?thesis by blast
qed

theorem quantity_normalization_witness:
  "list_all (\<lambda>w. length (py_str (kod w)) \<le> 4300 \<and> length (py_str (kolichestvo w)) \<le> 4300)
     quantity_feed
   \<and> seller_create_stocks quantity_feed quantity_ids
       = Inr ([\<lparr>offer_id = ''7'', stock = 100\<rparr>, \<lparr>offer_id = ''8'', stock = 0\<rparr>,
               \<lparr>offer_id = ''9'', stock = - 12\<rparr>, \<lparr>offer_id = ''6'', stock = 5\<rparr>,
               \<lparr>offer_id = ''5'', stock = 0\<rparr>], [''5''])
   \<and> list_all2 (\<lambda>w d. \<exists>n. literal_quantity (py_str (kolichestvo w)) = Some n
                          \<and> d = \<lparr>offer_id = watch_code w, stock = n\<rparr>)
        (kept quantity_ids quantity_feed)
        (take (length (kept quantity_ids quantity_feed))
           [\<lparr>offer_id = ''7'', stock = 100\<rparr>, \<lparr>offer_id = ''8'', stock = 0\<rparr>,
            \<lparr>offer_id = ''9'', stock = - 12\<rparr>, \<lparr>offer_id = ''6'', stock = 5\<rparr>,
            \<lparr>offer_id = ''5'', stock = 0\<rparr>])
   \<and> list_all (\<lambda>w. length (py_str (kod w)) \<le> 4300 \<and> length (py_str (kolichestvo w)) \<le> 4300)
        control_feed
   \<and> isl (seller_create_stocks control_feed [''7''])
   \<and> isl (market_create_stocks ''d'' control_feed [''7''] ''w'')"
proof -
  have h: "list_all (\<lambda>w. length (py_str (kod w)) \<le> 4300
                         \<and> length (py_str (kolichestvo w)) \<le> 4300) quantity_feed"
    by (simp add: quantity_feed_def)
  have r: "seller_create_stocks quantity_feed quantity_ids
       = Inr ([\<lparr>offer_id = ''7'', stock = 100\<rparr>, \<lparr>offer_id = ''8'', stock = 0\<rparr>,
               \<lparr>offer_id = ''9'', stock = - 12\<rparr>, \<lparr>offer_id = ''6'', stock = 5\<rparr>,
               \<lparr>offer_id = ''5'', stock = 0\<rparr>], [''5''])"
    by (simp add: seller_create_stocks_def quantity_feed_def quantity_ids_def stock_count_def
        parse_int_def parse_unsigned_def ascii_text_def is_space_def is_digit_def digit_val_def
        continuation_def code_point_def unicode_space_def char_of_def bit_0)
  have "\<forall>out ids'. seller_create_stocks quantity_feed quantity_ids = Inr (out, ids') \<longrightarrow>
            list_all2 (\<lambda>w d. \<exists>n. literal_quantity (py_str (kolichestvo w)) = Some n
                                  \<and> d = \<lparr>offer_id = watch_code w, stock = n\<rparr>)
              (kept quantity_ids quantity_feed) (take (length (kept quantity_ids quantity_feed)) out)"
    using quantity_normalization [OF h, of quantity_ids "''d''" "''w''"] by (elim conjE)
  then have c: "list_all2 (\<lambda>w d. \<exists>n. literal_quantity (py_str (kolichestvo w)) = Some n
                          \<and> d = \<lparr>offer_id = watch_code w, stock = n\<rparr>)
        (kept quantity_ids quantity_feed)
        (take (length (kept quantity_ids quantity_feed))
           [\<lparr>offer_id = ''7'', stock = 100\<rparr>, \<lparr>offer_id = ''8'', stock = 0\<rparr>,
            \<lparr>offer_id = ''9'', stock = - 12\<rparr>, \<lparr>offer_id = ''6'', stock = 5\<rparr>,
            \<lparr>offer_id = ''5'', stock = 0\<rparr>])"
    using r by blast
  have h': "list_all (\<lambda>w. length (py_str (kod w)) \<le> 4300
                         \<and> length (py_str (kolichestvo w)) \<le> 4300) control_feed"
    by (simp add: control_feed_def)
  have x: "list_ex (\<lambda>w. literal_quantity (py_str (kolichestvo w)) = None)
             (kept [''7''] control_feed)"
    by (simp add: control_feed_def watch_code_def literal_quantity_def integer_literal_def
        trim_def grouped_def ascii_text_def is_space_def is_digit_def)
  have f: "isl (seller_create_stocks control_feed [''7''])"
    using quantity_normalization [OF h', of "[''7'']" "''d''" "''w''"] x by blast
  have g: "isl (market_create_stocks ''d'' control_feed [''7''] ''w'')"
    using quantity_normalization [OF h', of "[''7'']" "''d''" "''w''"] x by blast
  show ?thesis
    by (intro conjI) (rule h r c h' f g)+
qed

section \<open>Sign of the stock counts\<close>

text \<open>
  Claim C8, as stated, fails: a quantity token that denotes a negative integer normalises
  without error, and the decision carries the negative count.
\<close>

theorem negative_stock_counterexample:
  "seller_create_stocks [\<lparr>kod = PStr ''1'', kolichestvo = PStr ''-5'', tsena = PStr ''''\<rparr>] [''1'']
     = Inr ([\<lparr>offer_id = ''1'', stock = - 5\<rparr>], [])"
  by (simp add: seller_create_stocks_def stock_count_def parse_int_def parse_unsigned_def ascii_text_def is_space_def
      is_digit_def digit_val_def)

lemma decisions_stock_source:
  assumes "decisions mk (kept ids ws) = Inr ds" and "d \<in> set ds"
  shows "\<exists>w \<in> set ws. \<exists>n. normalize_quantity (py_str (kolichestvo w)) = Some n
           \<and> d = mk (watch_code w) n"
proof -
  obtain w n where w: "w \<in> set (kept ids ws)" and n: "stock_count (kolichestvo w) = Inr n"
    and d: "d = mk (watch_code w) n"
    using decisions_origin [OF assms] by blast
  have "w \<in> set ws" using w kept_subset [of ids ws] by blast
  moreover have "normalize_quantity (py_str (kolichestvo w)) = Some n"
    using n by (rule stock_count_Inr_normalize)
  ultimately show ?thesis using d by blast
qed

lemma example_stocks:
  "seller_create_stocks example_feed example_ids
     = Inr ([\<lparr>offer_id = ''123'', stock = 100\<rparr>, \<lparr>offer_id = ''456'', stock = 0\<rparr>], [''456''])"
  by (simp add: seller_create_stocks_def example_feed_def example_ids_def stock_count_def)

lemma example_market_stocks:
  "market_create_stocks ''d'' example_feed example_ids ''w''
     = Inr ([market_entry ''w'' ''d'' ''123'' 100, market_entry ''w'' ''d'' ''456'' 0], [''456''])"
  by (simp add: market_create_stocks_def example_feed_def example_ids_def stock_count_def)

lemma example_tokens_not_negative:
  "\<forall>w \<in> set example_feed. \<forall>n.
     normalize_quantity (py_str (kolichestvo w)) = Some n \<longrightarrow> 0 \<le> n"
  by (simp add: example_feed_def normalize_quantity_def parse_int_def parse_unsigned_def ascii_text_def is_space_def
      is_digit_def digit_val_def)

text \<open>
  Claim C8, amended. Every stock decision of both modules carries a non-negative count
  provided that no quantity cell of the feed normalises to a negative integer. The code
  has no guard of its own against a negative count.
\<close>

theorem stock_counts_from_tokens:
  assumes "\<forall>w \<in> set ws. \<forall>n. normalize_quantity (py_str (kolichestvo w)) = Some n \<longrightarrow> 0 \<le> n"
  shows "(\<forall>out ids'. seller_create_stocks ws ids = Inr (out, ids') \<longrightarrow>
            (\<forall>d \<in> set out. 0 \<le> stock d))
       \<and> (\<forall>out ids'. market_create_stocks date ws ids wh = Inr (out, ids') \<longrightarrow>
            (\<forall>d \<in> set out. \<forall>it \<in> set (items d). 0 \<le> count it))"
proof (intro conjI allI impI ballI)
  fix out ids' d
  assume r: "seller_create_stocks ws ids = Inr (out, ids')" and d: "d \<in> set out"
  obtain ds where ds: "decisions seller_entry (kept ids ws) = Inr ds"
    using r by (cases "decisions seller_entry (kept ids ws)")
      (simp_all add: seller_create_stocks_eq)
  have out: "out = ds @ map (\<lambda>i. seller_entry i 0) (leftover ids ws)"
    using r ds by (auto simp: seller_create_stocks_eq)
  show "0 \<le> stock d"
  proof (cases "d \<in> set ds")
    case True
    then obtain w n where "w \<in> set ws" "normalize_quantity (py_str (kolichestvo w)) = Some n"
      "d = seller_entry (watch_code w) n"
      using decisions_stock_source [OF ds] by blast
    then show ?thesis using assms by (auto simp: seller_entry_def)
  next
    case False
    then have "d \<in> set (map (\<lambda>i. seller_entry i 0) (leftover ids ws))"
      using d out by simp
    then show ?thesis by (auto simp: seller_entry_def)
  qed
next
  fix out ids' d it
  assume r: "market_create_stocks date ws ids wh = Inr (out, ids')" and d: "d \<in> set out"
    and it: "it \<in> set (items d)"
  obtain ds where ds: "decisions (market_entry wh date) (kept ids ws) = Inr ds"
    using r by (cases "decisions (market_entry wh date) (kept ids ws)")
      (simp_all add: market_create_stocks_eq)
  have out: "out = ds @ map (\<lambda>i. market_entry wh date i 0) (leftover ids ws)"
    using r ds by (auto simp: market_create_stocks_eq)
  show "0 \<le> count it"
  proof (cases "d \<in> set ds")
    case True
    then obtain w n where "w \<in> set ws" "normalize_quantity (py_str (kolichestvo w)) = Some n"
      "d = market_entry wh date (watch_code w) n"
      using decisions_stock_source [OF ds] by blast
    then show ?thesis using assms it by (auto simp: market_entry_def)
  next
    case False
    then have "d \<in> set (map (\<lambda>i. market_entry wh date i 0) (leftover ids ws))"
      using d out by simp
    then show ?thesis using it by (auto simp: market_entry_def)
  qed
qed


theorem stock_counts_from_tokens_witness:
  "list_all (\<lambda>w. \<forall>n. normalize_quantity (py_str (kolichestvo w)) = Some n \<longrightarrow> 0 \<le> n)
     example_feed
   \<and> seller_create_stocks example_feed example_ids
       = Inr ([\<lparr>offer_id = ''123'', stock = 100\<rparr>, \<lparr>offer_id = ''456'', stock = 0\<rparr>], [''456''])
   \<and> list_all (\<lambda>d. 0 \<le> stock d)
         [\<lparr>offer_id = ''123'', stock = 100\<rparr>, \<lparr>offer_id = ''456'', stock = 0\<rparr>]"
proof -
  have "\<forall>out ids'. seller_create_stocks example_feed example_ids = Inr (out, ids') \<longrightarrow>
          (\<forall>d \<in> set out. 0 \<le> stock d)"
    using stock_counts_from_tokens [OF example_tokens_not_negative, of example_ids "''d''" "''w''"]
    by (rule conjunct1)
  then have "\<forall>d \<in> set [\<lparr>offer_id = ''123'', stock = 100\<rparr>, \<lparr>offer_id = ''456'', stock = 0\<rparr>].
               0 \<le> stock d"
    using example_stocks by blast
  then have c: "list_all (\<lambda>d. 0 \<le> stock d)
         [\<lparr>offer_id = ''123'', stock = 100\<rparr>, \<lparr>offer_id = ''456'', stock = 0\<rparr>]"
    by (simp only: list_all_iff)
  have h: "list_all (\<lambda>w. \<forall>n. normalize_quantity (py_str (kolichestvo w)) = Some n \<longrightarrow> 0 \<le> n)
     example_feed"
    using example_tokens_not_negative by (simp only: list_all_iff)
  show ?thesis
    by (intro conjI) (rule h example_stocks c)+
qed

section \<open>The price rule\<close>

lemma market_price_value_digits:
  "market_price_value (PStr s) =
     (if price_conversion s = [] then Inl ValueError
      else Inr (int (digits_value 0 (price_conversion s))))"
proof (cases "price_conversion s = []")
  case True
  then show ?thesis
    by (simp add: market_price_value_def parse_int_def ascii_text_def)
next
  case False
  have all: "\<forall>x \<in> set (price_conversion s). is_digit x" by (simp add: price_conversion_def)
  show ?thesis
    using False parse_int_digits(1) [OF False all] by (simp add: market_price_value_def)
qed

text \<open>
  The examples of the docstring: the prices \<open>5'990.00\<close> and \<open>10'500.50\<close>, each followed by a
  space, the three Cyrillic letters of the currency in UTF-8 and a full stop.
\<close>

lemma price_conversion_examples:
  "price_conversion
     (''5'990.00 '' @ [CHR 0xD1, CHR 0x80, CHR 0xD1, CHR 0x83, CHR 0xD0, CHR 0xB1, CHR ''.''])
     = ''5990''"
  "market_price_value (PStr
     (''10'500.50 '' @ [CHR 0xD1, CHR 0x80, CHR 0xD1, CHR 0x83, CHR 0xD0, CHR 0xB1, CHR ''.'']))
     = Inr 10500"
  by (simp_all add: price_conversion_def market_price_value_def parse_int_def parse_unsigned_def ascii_text_def
      is_space_def is_digit_def digit_val_def)

text \<open>
  Claim C3, at the input of the docstring of \<^verbatim>\<open>price_conversion\<close>. The docstring promises
  \<^verbatim>\<open>ValueError\<close> for a price without digits. The function returns the empty string
  instead, also on the empty price, and \<^verbatim>\<open>seller.create_prices\<close> passes it on as the
  price; only \<^verbatim>\<open>market.create_prices\<close>, which applies \<^verbatim>\<open>int\<close> to the result, fails.
\<close>

theorem price_conversion_never_fails:
  "price_conversion ''invalid_price'' = []
   \<and> price_conversion [] = []
   \<and> seller_create_prices
        [\<lparr>kod = PStr ''123'', kolichestvo = PStr ''5'', tsena = PStr ''invalid_price''\<rparr>] [''123'']
       = Inr [\<lparr>auto_action_enabled = ''UNKNOWN'', currency_code = ''RUB'',
               price_offer_id = ''123'', old_price = ''0'', price = []\<rparr>]
   \<and> market_create_prices
        [\<lparr>kod = PStr ''123'', kolichestvo = PStr ''5'', tsena = PStr ''invalid_price''\<rparr>] [''123'']
       = Inl ValueError"
  by (simp add: price_conversion_def is_digit_def seller_create_prices_def
      market_create_prices_def market_price_value_def parse_int_def parse_unsigned_def ascii_text_def)

section \<open>The caller's list of offer ids\<close>

text \<open>
  Claim C4, at a feed of one record with a known code. \<^verbatim>\<open>create_stocks\<close> of both modules
  leaves the caller's list of offer ids without the matched id, so a second call with the
  same list returns another result, and \<^verbatim>\<open>create_prices\<close> called afterwards with that
  list, as \<^verbatim>\<open>seller.main\<close> does, returns no price for the record.
\<close>

theorem create_stocks_consumes_offer_ids:
  "seller_create_stocks
      [\<lparr>kod = PStr ''123'', kolichestvo = PStr ''5'', tsena = PStr ''10.00''\<rparr>] [''123'']
     = Inr ([\<lparr>offer_id = ''123'', stock = 5\<rparr>], [])
   \<and> seller_create_stocks
      [\<lparr>kod = PStr ''123'', kolichestvo = PStr ''5'', tsena = PStr ''10.00''\<rparr>] []
     = Inr ([], [])
   \<and> seller_create_prices
      [\<lparr>kod = PStr ''123'', kolichestvo = PStr ''5'', tsena = PStr ''10.00''\<rparr>] [''123'']
     = Inr [\<lparr>auto_action_enabled = ''UNKNOWN'', currency_code = ''RUB'',
             price_offer_id = ''123'', old_price = ''0'', price = ''10''\<rparr>]
   \<and> seller_create_prices
      [\<lparr>kod = PStr ''123'', kolichestvo = PStr ''5'', tsena = PStr ''10.00''\<rparr>] []
     = Inr []
   \<and> market_create_stocks ''d''
      [\<lparr>kod = PStr ''123'', kolichestvo = PStr ''5'', tsena = PStr ''10.00''\<rparr>] [''123''] ''w''
     = Inr ([market_entry ''w'' ''d'' ''123'' 5], [])
   \<and> market_create_stocks ''d''
      [\<lparr>kod = PStr ''123'', kolichestvo = PStr ''5'', tsena = PStr ''10.00''\<rparr>] [] ''w''
     = Inr ([], [])"
  by (simp add: seller_create_stocks_def market_create_stocks_def seller_create_prices_def
      stock_count_def parse_int_def parse_unsigned_def ascii_text_def is_space_def is_digit_def digit_val_def
      price_conversion_def)

section \<open>Selectivity of the price pass\<close>

lemma seller_prices_loop_ids:
  "seller_prices_loop ws ids acc = Inr out \<Longrightarrow>
     \<exists>ps. out = acc @ ps \<and> map price_offer_id ps = filter (\<lambda>c. c \<in> set ids) (map watch_code ws)"
proof (induction ws arbitrary: acc)
  case Nil
  then show ?case by simp
next
  case (Cons w ws)
  show ?case
  proof (cases "watch_code w \<in> set ids")
    case False
    then show ?thesis using Cons by (simp add: watch_code_def [symmetric])
  next
    case True
    then obtain p where p: "price_of_cell (tsena w) = Inr p"
      using Cons.prems by (cases "price_of_cell (tsena w)") (simp_all add: watch_code_def)
    let ?e = "\<lparr>auto_action_enabled = ''UNKNOWN'', currency_code = ''RUB'',
               price_offer_id = watch_code w, old_price = ''0'', price = p\<rparr>"
    have "seller_prices_loop ws ids (acc @ [?e]) = Inr out"
      using Cons.prems True p by (simp add: watch_code_def)
    from Cons.IH [OF this] obtain ps where "out = (acc @ [?e]) @ ps"
      and "map price_offer_id ps = filter (\<lambda>c. c \<in> set ids) (map watch_code ws)"
      by blast
    then have "out = acc @ (?e # ps)"
      and "map price_offer_id (?e # ps) = filter (\<lambda>c. c \<in> set ids) (map watch_code (w # ws))"
      using True by simp_all
    then show ?thesis by blast
  qed
qed

lemma market_prices_loop_ids:
  "market_prices_loop ws ids acc = Inr out \<Longrightarrow>
     \<exists>ps. out = acc @ ps \<and> map price_id ps = filter (\<lambda>c. c \<in> set ids) (map watch_code ws)"
proof (induction ws arbitrary: acc)
  case Nil
  then show ?case by simp
next
  case (Cons w ws)
  show ?case
  proof (cases "watch_code w \<in> set ids")
    case False
    then show ?thesis using Cons by (simp add: watch_code_def [symmetric])
  next
    case True
    then obtain v where v: "market_price_value (tsena w) = Inr v"
      using Cons.prems by (cases "market_price_value (tsena w)") (simp_all add: watch_code_def)
    let ?e = "\<lparr>price_id = watch_code w, price_value = v, currencyId = ''RUR''\<rparr>"
    have "market_prices_loop ws ids (acc @ [?e]) = Inr out"
      using Cons.prems True v by (simp add: watch_code_def)
    from Cons.IH [OF this] obtain ps where "out = (acc @ [?e]) @ ps"
      and "map price_id ps = filter (\<lambda>c. c \<in> set ids) (map watch_code ws)"
      by blast
    then have "out = acc @ (?e # ps)"
      and "map price_id (?e # ps) = filter (\<lambda>c. c \<in> set ids) (map watch_code (w # ws))"
      using True by simp_all
    then show ?thesis by blast
  qed
qed

lemma seller_prices_loop_total:
  "\<forall>w \<in> set ws. \<exists>s. tsena w = PStr s \<Longrightarrow> \<exists>out. seller_prices_loop ws ids acc = Inr out"
  by (induction ws arbitrary: acc) auto

text \<open>
  Claim C7, as stated, fails: \<^verbatim>\<open>create_prices\<close> does not consume the ids, so two feed
  records with the same known code give two price decisions for one offer id.
\<close>

theorem create_prices_two_for_one_id:
  "seller_create_prices
      [\<lparr>kod = PStr ''1'', kolichestvo = PStr ''5'', tsena = PStr ''5.00''\<rparr>,
       \<lparr>kod = PStr ''1'', kolichestvo = PStr ''9'', tsena = PStr ''9.00''\<rparr>] [''1'']
     = Inr [\<lparr>auto_action_enabled = ''UNKNOWN'', currency_code = ''RUB'',
             price_offer_id = ''1'', old_price = ''0'', price = ''5''\<rparr>,
            \<lparr>auto_action_enabled = ''UNKNOWN'', currency_code = ''RUB'',
             price_offer_id = ''1'', old_price = ''0'', price = ''9''\<rparr>]
   \<and> market_create_prices
      [\<lparr>kod = PStr ''1'', kolichestvo = PStr ''5'', tsena = PStr ''5.00''\<rparr>,
       \<lparr>kod = PStr ''1'', kolichestvo = PStr ''9'', tsena = PStr ''9.00''\<rparr>] [''1'']
     = Inr [\<lparr>price_id = ''1'', price_value = 5, currencyId = ''RUR''\<rparr>,
            \<lparr>price_id = ''1'', price_value = 9, currencyId = ''RUR''\<rparr>]"
  by (simp add: seller_create_prices_def market_create_prices_def market_price_value_def
      price_conversion_def parse_int_def parse_unsigned_def ascii_text_def is_space_def is_digit_def digit_val_def)

text \<open>
  Claim C7, amended. \<^verbatim>\<open>create_prices\<close> of both modules produces exactly one price
  decision per feed record whose code is a known offer id, in feed order, and none for a
  known offer id that no record carries; there is at most one decision per offer id when
  the codes of the feed are distinct. \<^verbatim>\<open>seller.create_prices\<close> returns whenever every price
  cell is a string.
\<close>

theorem create_prices_selective:
  assumes "\<forall>w \<in> set ws. \<exists>s. tsena w = PStr s"
  shows "(\<exists>out. seller_create_prices ws ids = Inr out
            \<and> map price_offer_id out = filter (\<lambda>c. c \<in> set ids) (map watch_code ws)
            \<and> (distinct (map watch_code ws) \<longrightarrow> distinct (map price_offer_id out)))
       \<and> (\<forall>out. market_create_prices ws ids = Inr out \<longrightarrow>
            map price_id out = filter (\<lambda>c. c \<in> set ids) (map watch_code ws)
            \<and> (distinct (map watch_code ws) \<longrightarrow> distinct (map price_id out)))"
proof (intro conjI allI impI)
  obtain out where out: "seller_create_prices ws ids = Inr out"
    using seller_prices_loop_total [OF assms, of ids "[]"]
    by (auto simp: seller_create_prices_def)
  then have m: "map price_offer_id out = filter (\<lambda>c. c \<in> set ids) (map watch_code ws)"
    using seller_prices_loop_ids [of ws ids "[]" out] by (simp add: seller_create_prices_def)
  then have "distinct (map watch_code ws) \<longrightarrow> distinct (map price_offer_id out)"
    by simp
  with out m show "\<exists>out. seller_create_prices ws ids = Inr out
            \<and> map price_offer_id out = filter (\<lambda>c. c \<in> set ids) (map watch_code ws)
            \<and> (distinct (map watch_code ws) \<longrightarrow> distinct (map price_offer_id out))"
    by blast
next
  fix out
  assume "market_create_prices ws ids = Inr out"
  then show "map price_id out = filter (\<lambda>c. c \<in> set ids) (map watch_code ws)"
    using market_prices_loop_ids [of ws ids "[]" out] by (simp add: market_create_prices_def)
next
  fix out
  assume "market_create_prices ws ids = Inr out" and "distinct (map watch_code ws)"
  then show "distinct (map price_id out)"
    using market_prices_loop_ids [of ws ids "[]" out] by (simp add: market_create_prices_def)
qed


theorem create_prices_selective_witness:
  "list_all (\<lambda>w. \<exists>s. tsena w = PStr s) example_feed
   \<and> (\<exists>out. seller_create_prices example_feed example_ids = Inr out
         \<and> map price_offer_id out = [''123'', ''123''])"
proof -
  have h: "\<forall>w \<in> set example_feed. \<exists>s. tsena w = PStr s"
    by (simp add: example_feed_def)
  have e: "filter (\<lambda>c. c \<in> set example_ids) (map watch_code example_feed) = [''123'', ''123'']"
    by (simp add: example_feed_def example_ids_def watch_code_def)
  obtain out where r: "seller_create_prices example_feed example_ids = Inr out"
    and m: "map price_offer_id out
              = filter (\<lambda>c. c \<in> set example_ids) (map watch_code example_feed)"
    using create_prices_selective [OF h, of example_ids] by blast
  have m': "map price_offer_id out = [''123'', ''123'']" using m by (simp only: e)
  have h': "list_all (\<lambda>w. \<exists>s. tsena w = PStr s) example_feed"
    using h by (simp only: list_all_iff)
  show ?thesis
    by (intro conjI exI) (rule h' r m')+
qed

section \<open>Pagination\<close>


lemma market_loop_serves:
  "market_serves get k cur ps \<Longrightarrow>
     market_product_loop get k cur acc = Some (Inr (acc @ concat (map offerMappingEntries ps)))"
proof (induction ps arbitrary: k cur acc)
  case Nil
  then show ?case by simp
next
  case (Cons p ps)
  have g: "get k cur = Inr p" using Cons.prems by simp
  show ?case
  proof (cases "ps = []")
    case True
    then have "no_page (nextPageToken p)" using Cons.prems by simp
    then show ?thesis
      using g True by (subst market_product_loop.simps) simp
  next
    case False
    then have n: "\<not> no_page (nextPageToken p)"
      and s: "market_serves get (Suc k) (page_token (nextPageToken p)) ps"
      using Cons.prems by simp_all
    have "market_product_loop get k cur acc
            = market_product_loop get (Suc k) (page_token (nextPageToken p))
                (acc @ offerMappingEntries p)"
      using g n by (subst market_product_loop.simps) simp
    also have "\<dots> = Some (Inr ((acc @ offerMappingEntries p) @ concat (map offerMappingEntries ps)))"
      using s by (rule Cons.IH)
    finally show ?thesis by simp
  qed
qed

lemma seller_loop_serves:
  "seller_serves get k cur (length acc) ps \<Longrightarrow>
     seller_product_loop get k cur acc = Some (Inr (acc @ concat (map page_items ps)))"
proof (induction ps arbitrary: k cur acc)
  case Nil
  then show ?case by simp
next
  case (Cons p ps)
  have g: "get k cur = Inr p" using Cons.prems by simp
  show ?case
  proof (cases "ps = []")
    case True
    then have "page_total p = int (length acc + length (page_items p))" using Cons.prems by simp
    then show ?thesis
      using g True by (subst seller_product_loop.simps) simp
  next
    case False
    then have n: "page_total p \<noteq> int (length acc + length (page_items p))"
      and s: "seller_serves get (Suc k) (last_id p) (length (acc @ page_items p)) ps"
      using Cons.prems by (simp_all del: of_nat_add)
    have "seller_product_loop get k cur acc
            = seller_product_loop get (Suc k) (last_id p) (acc @ page_items p)"
      using g n by (subst seller_product_loop.simps) simp
    also have "\<dots> = Some (Inr ((acc @ page_items p) @ concat (map page_items ps)))"
      using s by (rule Cons.IH)
    finally show ?thesis by simp
  qed
qed

lemma market_loop_returns:
  assumes "market_product_loop get k cur acc = Some (Inr ids)"
  shows "\<exists>ps. market_serves get k cur ps \<and> ids = acc @ concat (map offerMappingEntries ps)"
proof -
  have "\<forall>ids'. (Inr ids :: py_error + string list) = Inr ids' \<longrightarrow>
          (\<exists>ps. market_serves get k cur ps \<and> ids' = acc @ concat (map offerMappingEntries ps))"
  proof (rule market_product_loop.raw_induct
      [where P = "\<lambda>get k cur acc r. \<forall>ids. r = Inr ids \<longrightarrow>
              (\<exists>ps. market_serves get k cur ps \<and> ids = acc @ concat (map offerMappingEntries ps))",
        OF _ assms], intro allI impI)
    fix loop get k cur acc r ids
    assume IH: "\<And>g k cur acc r. loop g k cur acc = Some r \<Longrightarrow>
                  \<forall>ids. r = Inr ids \<longrightarrow>
                    (\<exists>ps. market_serves g k cur ps \<and> ids = acc @ concat (map offerMappingEntries ps))"
      and eq: "(case get k cur of
                  Inl e \<Rightarrow> Some (Inl e)
                | Inr some_prod \<Rightarrow>
                    if no_page (nextPageToken some_prod)
                    then Some (Inr (acc @ offerMappingEntries some_prod))
                    else loop get (Suc k) (page_token (nextPageToken some_prod))
                           (acc @ offerMappingEntries some_prod)) = Some r"
      and r: "r = Inr ids"
    show "\<exists>ps. market_serves get k cur ps \<and> ids = acc @ concat (map offerMappingEntries ps)"
    proof (cases "get k cur")
      case (Inl e)
      then show ?thesis using eq r by simp
    next
      case (Inr p)
      show ?thesis
      proof (cases "no_page (nextPageToken p)")
        case True
        then have "ids = acc @ offerMappingEntries p" using eq r Inr by simp
        moreover have "market_serves get k cur [p]" using Inr True by simp
        ultimately show ?thesis by (intro exI [of _ "[p]"]) simp
      next
        case False
        then have "loop get (Suc k) (page_token (nextPageToken p)) (acc @ offerMappingEntries p)
                     = Some r"
          using eq Inr by simp
        from IH [OF this] r obtain ps
          where ps: "market_serves get (Suc k) (page_token (nextPageToken p)) ps"
            and ids: "ids = (acc @ offerMappingEntries p) @ concat (map offerMappingEntries ps)"
          by blast
        have "ps \<noteq> []" using ps by (cases ps) simp_all
        then have a: "market_serves get k cur (p # ps)" using Inr False ps by simp
        have b: "ids = acc @ concat (map offerMappingEntries (p # ps))" using ids by simp
        from a b show ?thesis by blast
      qed
    qed
  qed
  then show ?thesis by simp
qed

lemma seller_loop_returns:
  assumes "seller_product_loop get k cur acc = Some (Inr ids)"
  shows "\<exists>ps. seller_serves get k cur (length acc) ps \<and> ids = acc @ concat (map page_items ps)"
proof -
  have "\<forall>ids'. (Inr ids :: py_error + string list) = Inr ids' \<longrightarrow>
          (\<exists>ps. seller_serves get k cur (length acc) ps \<and> ids' = acc @ concat (map page_items ps))"
  proof (rule seller_product_loop.raw_induct
      [where P = "\<lambda>get k cur acc r. \<forall>ids. r = Inr ids \<longrightarrow>
              (\<exists>ps. seller_serves get k cur (length acc) ps \<and> ids = acc @ concat (map page_items ps))",
        OF _ assms], intro allI impI)
    fix loop get k cur acc r ids
    assume IH: "\<And>g k cur acc r. loop g k cur acc = Some r \<Longrightarrow>
                  \<forall>ids. r = Inr ids \<longrightarrow>
                    (\<exists>ps. seller_serves g k cur (length acc) ps \<and> ids = acc @ concat (map page_items ps))"
      and eq: "(case get k cur of
                  Inl e \<Rightarrow> Some (Inl e)
                | Inr some_prod \<Rightarrow>
                    if page_total some_prod = int (length (acc @ page_items some_prod))
                    then Some (Inr (acc @ page_items some_prod))
                    else loop get (Suc k) (last_id some_prod) (acc @ page_items some_prod)) = Some r"
      and r: "r = Inr ids"
    show "\<exists>ps. seller_serves get k cur (length acc) ps \<and> ids = acc @ concat (map page_items ps)"
    proof (cases "get k cur")
      case (Inl e)
      then show ?thesis using eq r by simp
    next
      case (Inr p)
      show ?thesis
      proof (cases "page_total p = int (length acc + length (page_items p))")
        case True
        then have "ids = acc @ page_items p" using eq r Inr by simp
        moreover have "seller_serves get k cur (length acc) [p]" using Inr True by simp
        ultimately show ?thesis by (intro exI [of _ "[p]"]) simp
      next
        case False
        then have "loop get (Suc k) (last_id p) (acc @ page_items p) = Some r"
          using eq Inr by simp
        from IH [OF this] r obtain ps
          where ps: "seller_serves get (Suc k) (last_id p) (length (acc @ page_items p)) ps"
            and ids: "ids = (acc @ page_items p) @ concat (map page_items ps)"
          by blast
        have "ps \<noteq> []" using ps by (cases ps) simp_all
        then have a: "seller_serves get k cur (length acc) (p # ps)"
          using Inr False ps by (simp del: of_nat_add)
        have b: "ids = acc @ concat (map page_items (p # ps))" using ids by simp
        from a b show ?thesis by blast
      qed
    qed
  qed
  then show ?thesis by simp
qed

text \<open>A run that never returns: the number accumulated stays even, the total is odd.\<close>

lemma stale_total_never_returns:
  assumes "seller_product_loop get k cur acc = Some r"
  shows "get = stale_total \<longrightarrow> odd (length acc)"
proof (rule seller_product_loop.raw_induct
    [where P = "\<lambda>get k cur acc r. get = stale_total \<longrightarrow> odd (length acc)", OF _ assms], intro impI)
  fix loop get k cur acc r
  assume IH: "\<And>g k cur acc r. loop g k cur acc = Some r \<Longrightarrow> g = stale_total \<longrightarrow> odd (length acc)"
    and eq: "(case get k cur of
                  Inl e \<Rightarrow> Some (Inl e)
                | Inr some_prod \<Rightarrow>
                    if page_total some_prod = int (length (acc @ page_items some_prod))
                    then Some (Inr (acc @ page_items some_prod))
                    else loop get (Suc k) (last_id some_prod) (acc @ page_items some_prod)) = Some r"
    and g: "get = stale_total"
  show "odd (length acc)"
  proof (cases "3 = int (length acc + 2)")
    case True
    then have "length acc = 1" by simp
    then show ?thesis by simp
  next
    case False
    then have "loop stale_total (Suc k) [] (acc @ [''a'', ''b'']) = Some r"
      using eq g by (simp add: stale_total_def)
    from IH [OF this] have "odd (length (acc @ [''a'', ''b'']))" by simp
    then show ?thesis by simp
  qed
qed

text \<open>
  Claim C10, as stated, fails for \<^verbatim>\<open>seller.get_offer_ids\<close>: its loop does not look at the
  cursor. The catalogue \<^const>\<open>stale_total\<close> answers every call with a page of two products
  that carries the end-of-list cursor (an empty \<^verbatim>\<open>last_id\<close>) and the total 3, which the
  number of accumulated products never equals: the loop runs for ever.
\<close>

theorem seller_get_offer_ids_ignores_cursor:
  "stale_total 0 [] = Inr \<lparr>page_items = [''a'', ''b''], page_total = 3, last_id = []\<rparr>
   \<and> seller_get_offer_ids stale_total = None"
proof (cases "seller_get_offer_ids stale_total")
  case None
  then show ?thesis by (simp add: stale_total_def)
next
  case (Some r)
  then have "odd (length ([] :: string list))"
    using stale_total_never_returns [of stale_total 0 "[]" "[]" r]
    by (simp add: seller_get_offer_ids_def)
  then show ?thesis by simp
qed

text \<open>
  Claim C10, amended. \<^verbatim>\<open>market.get_offer_ids\<close> keeps calling the catalogue until a page
  carries no next-page token (\<^verbatim>\<open>None\<close> or empty); \<^verbatim>\<open>seller.get_offer_ids\<close> keeps
  calling until the total of a page equals the number of products accumulated. Each
  returns the offer ids of the pages in page order, and returns exactly when the
  catalogue serves a finite run of pages that ends with the first such page.
\<close>

theorem get_offer_ids_pagination:
  "(market_serves get 0 [] ps \<longrightarrow>
      market_get_offer_ids get = Some (Inr (concat (map offerMappingEntries ps))))
   \<and> (market_get_offer_ids get = Some (Inr ids) \<longrightarrow>
        (\<exists>ps. market_serves get 0 [] ps \<and> ids = concat (map offerMappingEntries ps)))
   \<and> (seller_serves sget 0 [] 0 qs \<longrightarrow>
        seller_get_offer_ids sget = Some (Inr (concat (map page_items qs))))
   \<and> (seller_get_offer_ids sget = Some (Inr sids) \<longrightarrow>
        (\<exists>qs. seller_serves sget 0 [] 0 qs \<and> sids = concat (map page_items qs)))"
proof (intro conjI impI)
  assume "market_serves get 0 [] ps"
  then show "market_get_offer_ids get = Some (Inr (concat (map offerMappingEntries ps)))"
    using market_loop_serves [of get 0 "[]" ps "[]"] by (simp add: market_get_offer_ids_def)
next
  assume "market_get_offer_ids get = Some (Inr ids)"
  then show "\<exists>ps. market_serves get 0 [] ps \<and> ids = concat (map offerMappingEntries ps)"
    using market_loop_returns [of get 0 "[]" "[]" ids] by (simp add: market_get_offer_ids_def)
next
  assume "seller_serves sget 0 [] 0 qs"
  then show "seller_get_offer_ids sget = Some (Inr (concat (map page_items qs)))"
    using seller_loop_serves [of sget 0 "[]" "[]" qs] by (simp add: seller_get_offer_ids_def)
next
  assume "seller_get_offer_ids sget = Some (Inr sids)"
  then show "\<exists>qs. seller_serves sget 0 [] 0 qs \<and> sids = concat (map page_items qs)"
    using seller_loop_returns [of sget 0 "[]" "[]" sids] by (simp add: seller_get_offer_ids_def)
qed


lemma example_market_serves:
  "market_serves example_market_catalog 0 []
     [\<lparr>offerMappingEntries = [''123''], nextPageToken = Some ''next''\<rparr>,
      \<lparr>offerMappingEntries = [''456''], nextPageToken = None\<rparr>]"
  by (simp add: example_market_catalog_def)

lemma example_seller_serves:
  "seller_serves example_seller_catalog 0 [] 0
     [\<lparr>page_items = [''123''], page_total = 2, last_id = ''123''\<rparr>,
      \<lparr>page_items = [''456''], page_total = 2, last_id = []\<rparr>]"
  by (simp add: example_seller_catalog_def)

lemma example_market_offer_ids:
  "market_get_offer_ids example_market_catalog = Some (Inr example_ids)"
  using market_loop_serves [OF example_market_serves, of "[]"]
  by (simp add: market_get_offer_ids_def example_ids_def)

lemma example_seller_offer_ids:
  "seller_get_offer_ids example_seller_catalog = Some (Inr example_ids)"
proof -
  have "seller_serves example_seller_catalog 0 [] (length ([] :: string list))
     [\<lparr>page_items = [''123''], page_total = 2, last_id = ''123''\<rparr>,
      \<lparr>page_items = [''456''], page_total = 2, last_id = []\<rparr>]"
    using example_seller_serves by simp
  from seller_loop_serves [OF this] show ?thesis
    by (simp add: seller_get_offer_ids_def example_ids_def)
qed

theorem get_offer_ids_pagination_witness:
  "market_serves example_market_catalog 0 []
     [\<lparr>offerMappingEntries = [''123''], nextPageToken = Some ''next''\<rparr>,
      \<lparr>offerMappingEntries = [''456''], nextPageToken = None\<rparr>]
   \<and> market_get_offer_ids example_market_catalog = Some (Inr [''123'', ''456''])
   \<and> (\<exists>ps. market_serves example_market_catalog 0 [] ps
         \<and> [''123'', ''456''] = concat (map offerMappingEntries ps))
   \<and> seller_serves example_seller_catalog 0 [] 0
     [\<lparr>page_items = [''123''], page_total = 2, last_id = ''123''\<rparr>,
      \<lparr>page_items = [''456''], page_total = 2, last_id = []\<rparr>]
   \<and> seller_get_offer_ids example_seller_catalog = Some (Inr [''123'', ''456''])
   \<and> (\<exists>qs. seller_serves example_seller_catalog 0 [] 0 qs
         \<and> [''123'', ''456''] = concat (map page_items qs))"
proof -
  let ?ps = "[\<lparr>offerMappingEntries = [''123''], nextPageToken = Some ''next''\<rparr>,
              \<lparr>offerMappingEntries = [''456''], nextPageToken = None\<rparr>]"
  let ?qs = "[\<lparr>page_items = [''123''], page_total = 2, last_id = ''123''\<rparr>,
              \<lparr>page_items = [''456''], page_total = 2, last_id = []\<rparr>]"
  note t = get_offer_ids_pagination
    [where get = example_market_catalog and ps = ?ps and ids = "[''123'', ''456'']"
       and sget = example_seller_catalog and qs = ?qs and sids = "[''123'', ''456'']"]
  have m1: "market_get_offer_ids example_market_catalog = Some (Inr [''123'', ''456''])"
    using t example_market_serves by simp
  have m2: "\<exists>ps. market_serves example_market_catalog 0 [] ps
              \<and> [''123'', ''456''] = concat (map offerMappingEntries ps)"
    using t m1 by blast
  have s1: "seller_get_offer_ids example_seller_catalog = Some (Inr [''123'', ''456''])"
    using t example_seller_serves by simp
  have s2: "\<exists>qs. seller_serves example_seller_catalog 0 [] 0 qs
              \<and> [''123'', ''456''] = concat (map page_items qs)"
    using t s1 by blast
  show ?thesis
    by (intro conjI) (rule example_market_serves m1 m2 example_seller_serves s1 s2)+
qed

section \<open>The report of \<^verbatim>\<open>upload_stocks\<close>\<close>

lemma market_not_empty_filter:
  "market_not_empty ss = Inr r \<Longrightarrow>
     r = filter (\<lambda>s. map count (take 1 (items s)) \<noteq> [0]) ss"
proof (induction ss arbitrary: r)
  case Nil
  then show ?case by simp
next
  case (Cons s ss)
  then show ?case
    by (cases "items s"; cases "market_not_empty ss") (auto split: if_splits)
qed

lemma market_not_empty_total:
  "\<forall>s \<in> set ss. items s \<noteq> [] \<Longrightarrow> \<exists>r. market_not_empty ss = Inr r"
proof (induction ss)
  case Nil
  then show ?case by simp
next
  case (Cons s ss)
  then obtain r where "market_not_empty ss = Inr r" by auto
  moreover obtain it its where "items s = it # its"
    using Cons.prems by (cases "items s") auto
  ultimately show ?case by simp
qed

lemma submit_all_ok: "\<forall>k b. update k b = Inr () \<Longrightarrow> submit_all update k batches = Inr ()"
  by (induction batches arbitrary: k) simp_all

lemma market_create_stocks_items:
  assumes "market_create_stocks date ws ids wh = Inr (out, ids')"
  shows "\<forall>s \<in> set out. items s \<noteq> []"
proof -
  obtain ds where ds: "decisions (market_entry wh date) (kept ids ws) = Inr ds"
    using assms by (cases "decisions (market_entry wh date) (kept ids ws)")
      (simp_all add: market_create_stocks_eq)
  have out: "out = ds @ map (\<lambda>i. market_entry wh date i 0) (leftover ids ws)"
    using assms ds by (auto simp: market_create_stocks_eq)
  have "\<forall>s \<in> set ds. items s \<noteq> []"
    using decisions_origin [OF ds] by (fastforce simp: market_entry_def)
  then show ?thesis by (auto simp: out market_entry_def)
qed

text \<open>
  Claim C9. Whatever \<^verbatim>\<open>upload_stocks\<close> of either module returns is a pair of the decisions
  with a nonzero stock count, in the order of the full list, and the full list itself,
  which is the list that \<^verbatim>\<open>create_stocks\<close> returned for the offer ids fetched. It returns
  this pair whenever the offer ids are fetched, \<^verbatim>\<open>create_stocks\<close> succeeds and every batch
  is accepted.
\<close>

theorem upload_stocks_report:
  "(\<forall>not_empty stocks.
      seller_upload_stocks get update ws = Some (Inr (not_empty, stocks)) \<longrightarrow>
        not_empty = filter (\<lambda>s. stock s \<noteq> 0) stocks
        \<and> (\<exists>ids ids'. seller_get_offer_ids get = Some (Inr ids)
              \<and> seller_create_stocks ws ids = Inr (stocks, ids')))
   \<and> (\<forall>ids stocks ids'.
        seller_get_offer_ids get = Some (Inr ids)
        \<and> seller_create_stocks ws ids = Inr (stocks, ids')
        \<and> (\<forall>k b. update k b = Inr ()) \<longrightarrow>
          seller_upload_stocks get update ws
            = Some (Inr (filter (\<lambda>s. stock s \<noteq> 0) stocks, stocks)))
   \<and> (\<forall>not_empty stocks.
        market_upload_stocks date mget mupdate ws wh = Some (Inr (not_empty, stocks)) \<longrightarrow>
          not_empty = filter (\<lambda>s. map count (take 1 (items s)) \<noteq> [0]) stocks
          \<and> (\<exists>ids ids'. market_get_offer_ids mget = Some (Inr ids)
                \<and> market_create_stocks date ws ids wh = Inr (stocks, ids')))
   \<and> (\<forall>ids stocks ids'.
        market_get_offer_ids mget = Some (Inr ids)
        \<and> market_create_stocks date ws ids wh = Inr (stocks, ids')
        \<and> (\<forall>k b. mupdate k b = Inr ()) \<longrightarrow>
          market_upload_stocks date mget mupdate ws wh
            = Some (Inr (filter (\<lambda>s. map count (take 1 (items s)) \<noteq> [0]) stocks, stocks)))"
proof (intro conjI allI impI)
  fix not_empty stocks
  assume a: "seller_upload_stocks get update ws = Some (Inr (not_empty, stocks))"
  then show "not_empty = filter (\<lambda>s. stock s \<noteq> 0) stocks"
    by (auto simp: seller_upload_stocks_def split: option.splits sum.splits prod.splits)
  from a show "\<exists>ids ids'. seller_get_offer_ids get = Some (Inr ids)
              \<and> seller_create_stocks ws ids = Inr (stocks, ids')"
    by (auto simp: seller_upload_stocks_def split: option.splits sum.splits prod.splits)
next
  fix ids stocks ids'
  assume a: "seller_get_offer_ids get = Some (Inr ids)
        \<and> seller_create_stocks ws ids = Inr (stocks, ids')
        \<and> (\<forall>k b. update k b = Inr ())"
  then have "submit_all update 0 (divide_from stocks 100 0) = Inr ()"
    by (simp add: submit_all_ok)
  with a show "seller_upload_stocks get update ws
            = Some (Inr (filter (\<lambda>s. stock s \<noteq> 0) stocks, stocks))"
    by (simp add: seller_upload_stocks_def divide_lst_def)
next
  fix not_empty stocks
  assume a: "market_upload_stocks date mget mupdate ws wh = Some (Inr (not_empty, stocks))"
  then have "market_not_empty stocks = Inr not_empty"
    by (auto simp: market_upload_stocks_def split: option.splits sum.splits prod.splits)
  then show "not_empty = filter (\<lambda>s. map count (take 1 (items s)) \<noteq> [0]) stocks"
    by (rule market_not_empty_filter)
  from a show "\<exists>ids ids'. market_get_offer_ids mget = Some (Inr ids)
                \<and> market_create_stocks date ws ids wh = Inr (stocks, ids')"
    by (auto simp: market_upload_stocks_def split: option.splits sum.splits prod.splits)
next
  fix ids stocks ids'
  assume a: "market_get_offer_ids mget = Some (Inr ids)
        \<and> market_create_stocks date ws ids wh = Inr (stocks, ids')
        \<and> (\<forall>k b. mupdate k b = Inr ())"
  then have s: "submit_all mupdate 0 (divide_from stocks 2000 0) = Inr ()"
    by (simp add: submit_all_ok)
  have "\<forall>s \<in> set stocks. items s \<noteq> []"
    using a market_create_stocks_items by blast
  then obtain r where r: "market_not_empty stocks = Inr r"
    using market_not_empty_total by blast
  then have "r = filter (\<lambda>s. map count (take 1 (items s)) \<noteq> [0]) stocks"
    by (rule market_not_empty_filter)
  with a s r show "market_upload_stocks date mget mupdate ws wh
            = Some (Inr (filter (\<lambda>s. map count (take 1 (items s)) \<noteq> [0]) stocks, stocks))"
    by (simp add: market_upload_stocks_def divide_lst_def)
qed


theorem upload_stocks_report_witness:
  "seller_get_offer_ids example_seller_catalog = Some (Inr example_ids)
   \<and> seller_create_stocks example_feed example_ids
       = Inr ([\<lparr>offer_id = ''123'', stock = 100\<rparr>, \<lparr>offer_id = ''456'', stock = 0\<rparr>], [''456''])
   \<and> (\<forall>k b. (accept_batch :: nat \<Rightarrow> seller_stock list \<Rightarrow> py_error + unit) k b = Inr ())
   \<and> seller_upload_stocks example_seller_catalog accept_batch example_feed
       = Some (Inr ([\<lparr>offer_id = ''123'', stock = 100\<rparr>],
                    [\<lparr>offer_id = ''123'', stock = 100\<rparr>, \<lparr>offer_id = ''456'', stock = 0\<rparr>]))
   \<and> market_get_offer_ids example_market_catalog = Some (Inr example_ids)
   \<and> market_create_stocks ''d'' example_feed example_ids ''w''
       = Inr ([market_entry ''w'' ''d'' ''123'' 100, market_entry ''w'' ''d'' ''456'' 0], [''456''])
   \<and> (\<forall>k b. (accept_batch :: nat \<Rightarrow> market_stock list \<Rightarrow> py_error + unit) k b = Inr ())
   \<and> market_upload_stocks ''d'' example_market_catalog accept_batch example_feed ''w''
       = Some (Inr ([market_entry ''w'' ''d'' ''123'' 100],
                    [market_entry ''w'' ''d'' ''123'' 100, market_entry ''w'' ''d'' ''456'' 0]))"
proof -
  have a1: "\<forall>k b. (accept_batch :: nat \<Rightarrow> seller_stock list \<Rightarrow> py_error + unit) k b = Inr ()"
    by (simp add: accept_batch_def)
  have a2: "\<forall>k b. (accept_batch :: nat \<Rightarrow> market_stock list \<Rightarrow> py_error + unit) k b = Inr ()"
    by (simp add: accept_batch_def)
  note t = upload_stocks_report
    [where get = example_seller_catalog and update = accept_batch and ws = example_feed
       and date = "''d''" and mget = example_market_catalog and mupdate = accept_batch
       and wh = "''w''"]
  have "seller_upload_stocks example_seller_catalog accept_batch example_feed
          = Some (Inr (filter (\<lambda>s. stock s \<noteq> 0)
                         [\<lparr>offer_id = ''123'', stock = 100\<rparr>, \<lparr>offer_id = ''456'', stock = 0\<rparr>],
                       [\<lparr>offer_id = ''123'', stock = 100\<rparr>, \<lparr>offer_id = ''456'', stock = 0\<rparr>]))"
    using t example_seller_offer_ids example_stocks a1 by blast
  then have u1: "seller_upload_stocks example_seller_catalog accept_batch example_feed
       = Some (Inr ([\<lparr>offer_id = ''123'', stock = 100\<rparr>],
                    [\<lparr>offer_id = ''123'', stock = 100\<rparr>, \<lparr>offer_id = ''456'', stock = 0\<rparr>]))"
    by simp
  have "market_upload_stocks ''d'' example_market_catalog accept_batch example_feed ''w''
          = Some (Inr (filter (\<lambda>s. map count (take 1 (items s)) \<noteq> [0])
                         [market_entry ''w'' ''d'' ''123'' 100, market_entry ''w'' ''d'' ''456'' 0],
                       [market_entry ''w'' ''d'' ''123'' 100, market_entry ''w'' ''d'' ''456'' 0]))"
    using t example_market_offer_ids example_market_stocks a2 by blast
  then have u2: "market_upload_stocks ''d'' example_market_catalog accept_batch example_feed ''w''
       = Some (Inr ([market_entry ''w'' ''d'' ''123'' 100],
                    [market_entry ''w'' ''d'' ''123'' 100, market_entry ''w'' ''d'' ''456'' 0]))"
    by (simp add: market_entry_def)
  show ?thesis
    by (intro conjI)
      (rule example_seller_offer_ids example_stocks a1 u1 example_market_offer_ids
        example_market_stocks a2 u2)+
qed

end
